theory Spec2Isabelle
  imports Main
begin

section \<open>JavaScript strings and values\<close>

text \<open>
  A JavaScript string is a sequence of UTF-16 code units. A code unit is modelled by its
  number (a natural number below 65536; nothing below depends on the bound). \<open>js\<close> turns
  an Isabelle string literal into the code units of the same ASCII text.
\<close>

type_synonym code_unit = nat
type_synonym jsstring = "code_unit list"

definition js :: "string \<Rightarrow> jsstring" where
  "js cs = map of_char cs"

text \<open>
  The values that cross the bridge. Numbers are never inspected by the code modelled
  here, so their type is left unspecified. An array is the list of its elements. An
  object is its prototype and the list of its own enumerable string-keyed properties, in
  the order of \<open>Object.keys\<close>; the prototype \<open>None\<close> is \<open>Object.prototype\<close>, that of an
  object literal, and \<open>Some JNull\<close> is no prototype at all. An own property may have the
  key \<open>__proto__\<close>, as in the result of \<open>JSON.parse\<close>.
\<close>

typedecl js_number

datatype jsval =
    JUndefined
  | JNull
  | JBool bool
  | JNum js_number
  | JStr jsstring
  | JArr "jsval list"
  | JObj "jsval option" "(jsstring \<times> jsval) list"

section \<open>Regular expressions\<close>

text \<open>
  The regular-expression literals of the source are embedded as syntax trees, and matched
  by a backtracking matcher that follows the ECMAScript semantics of the constructs the
  source uses: sequences, alternatives, greedy \<open>*\<close>, \<open>+\<close> and \<open>?\<close>, character classes,
  \<open>.\<close>, \<open>\s\<close>, \<open>\w\<close>, \<open>\b\<close>, \<open>^\<close> and negative look-ahead. Capturing groups carry no
  information here (there are no back-references), so \<open>(r)\<close> and \<open>(?:r)\<close> are both \<open>r\<close>.
\<close>

text \<open>
  The members of a character class: one code unit, a range \<open>a-z\<close>, \<open>\s\<close> and \<open>\w\<close>.
  The expressions: \<open>.\<close>, a class \<open>[...]\<close>, a negated class \<open>[^...]\<close>, the empty
  expression, one expression after another, \<open>a|b\<close>, \<open>a*\<close>, \<open>a?\<close>, \<open>(?!a)\<close>, \<open>\b\<close>
  and \<open>^\<close> (without the \<open>m\<close> flag). \<open>a+\<close> is \<open>aa*\<close>.
\<close>

datatype atom = Ch code_unit | Rng code_unit code_unit | Space | WordCh

datatype rx =
    Dot
  | Set "atom list"
  | NSet "atom list"
  | Empty
  | Conc rx rx
  | Alt rx rx
  | Star rx
  | Opt rx
  | NLook rx
  | WordB
  | Bos

text \<open>
  Case folding of the \<open>i\<close> flag (\<open>Canonicalize\<close> without the \<open>u\<close> flag): a code unit is
  replaced by its upper-case form, except that a non-ASCII unit is never mapped to an
  ASCII one. Every character written in the patterns of the source is ASCII, so only
  comparisons against ASCII units occur, and for those the folding of the ASCII letters
  decides the result; the other units are left as they are.
\<close>

definition canonicalize :: "code_unit \<Rightarrow> code_unit" where
  "canonicalize c = (if 97 \<le> c \<and> c \<le> 122 then c - 32 else c)"

definition swapcase :: "code_unit \<Rightarrow> code_unit" where
  "swapcase c = (if 97 \<le> c \<and> c \<le> 122 then c - 32
                 else if 65 \<le> c \<and> c \<le> 90 then c + 32 else c)"

definition is_word :: "code_unit \<Rightarrow> bool" where
  "is_word c = (48 \<le> c \<and> c \<le> 57 \<or> 65 \<le> c \<and> c \<le> 90 \<or> c = 95 \<or> 97 \<le> c \<and> c \<le> 122)"

text \<open>\<open>\s\<close>: the white space and line terminator code points of ECMAScript.\<close>

definition is_space :: "code_unit \<Rightarrow> bool" where
  "is_space c = (9 \<le> c \<and> c \<le> 13 \<or> c = 32 \<or> c = 160 \<or> c = 5760
                 \<or> 8192 \<le> c \<and> c \<le> 8202 \<or> c = 8232 \<or> c = 8233 \<or> c = 8239
                 \<or> c = 8287 \<or> c = 12288 \<or> c = 65279)"

text \<open>\<open>.\<close> without the \<open>s\<close> flag: anything but a line terminator.\<close>

definition is_line_terminator :: "code_unit \<Rightarrow> bool" where
  "is_line_terminator c = (c = 10 \<or> c = 13 \<or> c = 8232 \<or> c = 8233)"

text \<open>
  Membership of a code unit in one member of a character class; \<open>ic\<close> is the \<open>i\<close> flag.
  With the flag, a range contains a unit when it contains some unit with the same
  canonical form, that is the unit itself or its other case.
\<close>

fun in_atom :: "bool \<Rightarrow> code_unit \<Rightarrow> atom \<Rightarrow> bool" where
  "in_atom ic c (Ch k) = (if ic then canonicalize c = canonicalize k else c = k)"
| "in_atom ic c (Rng lo hi) =
     (lo \<le> c \<and> c \<le> hi \<or> ic \<and> lo \<le> swapcase c \<and> swapcase c \<le> hi)"
| "in_atom ic c Space = is_space c"
| "in_atom ic c WordCh = is_word c"

text \<open>
  A position in the input is the code unit just before it (\<open>None\<close> at the start of the
  input) and the rest of the input. The matcher returns the positions at which a match
  of the expression starting here can end, in the order in which backtracking tries
  them: the head of the list is the match that the engine reports.
\<close>

type_synonym pos = "code_unit option \<times> jsstring"

fun unit_step :: "(code_unit \<Rightarrow> bool) \<Rightarrow> pos \<Rightarrow> pos list" where
  "unit_step P (p, []) = []"
| "unit_step P (p, c # cs) = (if P c then [(Some c, cs)] else [])"

definition before_word :: "pos \<Rightarrow> bool" where
  "before_word x = (case fst x of None \<Rightarrow> False | Some c \<Rightarrow> is_word c)"

definition after_word :: "pos \<Rightarrow> bool" where
  "after_word x = (case snd x of [] \<Rightarrow> False | c # cs \<Rightarrow> is_word c)"

text \<open>
  A greedy repetition tries one more round of its body first and only then stops; a round
  that consumes nothing is rejected, as in \<open>RepeatMatcher\<close>.
\<close>

fun m :: "bool \<Rightarrow> rx \<Rightarrow> pos \<Rightarrow> pos list" where
  "m ic Dot x = unit_step (\<lambda>c. \<not> is_line_terminator c) x"
| "m ic (Set as) x = unit_step (\<lambda>c. list_ex (in_atom ic c) as) x"
| "m ic (NSet as) x = unit_step (\<lambda>c. \<not> list_ex (in_atom ic c) as) x"
| "m ic Empty x = [x]"
| "m ic (Conc a b) x = concat (map (\<lambda>y. m ic b y) (m ic a x))"
| "m ic (Alt a b) x = m ic a x @ m ic b x"
| "m ic (Star a) x =
     concat (map (\<lambda>y. m ic (Star a) y)
       (filter (\<lambda>y. length (snd y) < length (snd x)) (m ic a x))) @ [x]"
| "m ic (Opt a) x = filter (\<lambda>y. length (snd y) < length (snd x)) (m ic a x) @ [x]"
| "m ic (NLook a) x = (if m ic a x = [] then [x] else [])"
| "m ic WordB x = (if before_word x \<noteq> after_word x then [x] else [])"
| "m ic Bos x = (if fst x = None then [x] else [])"

text \<open>Building blocks for writing the patterns of the source.\<close>

definition ch :: "char \<Rightarrow> atom" where
  "ch c = Ch (of_char c)"

fun lit :: "jsstring \<Rightarrow> rx" where
  "lit [] = Empty"
| "lit (c # cs) = Conc (Set [Ch c]) (lit cs)"

definition str :: "string \<Rightarrow> rx" where
  "str cs = lit (js cs)"

fun cat :: "rx list \<Rightarrow> rx" where
  "cat [] = Empty"
| "cat (r # rs) = Conc r (cat rs)"

definition many1 :: "rx \<Rightarrow> rx" where
  "many1 r = Conc r (Star r)"

text \<open>
  A compiled expression is its \<open>i\<close> flag and its tree. \<open>search\<close> is the scan of
  \<open>RegExp.prototype.exec\<close> from a position on: the leftmost position at which the
  expression matches; \<open>test\<close> runs it from the start of the input.
\<close>

type_synonym regexp = "bool \<times> rx"

fun search :: "regexp \<Rightarrow> code_unit option \<Rightarrow> jsstring \<Rightarrow> bool" where
  "search re p [] = (m (fst re) (snd re) (p, []) \<noteq> [])"
| "search re p (c # cs) = (m (fst re) (snd re) (p, c # cs) \<noteq> [] \<or> search re (Some c) cs)"

definition test :: "regexp \<Rightarrow> jsstring \<Rightarrow> bool" where
  "test re s = search re None s"

text \<open>
  \<open>String.prototype.replace\<close> with a global expression and the replacement \<open>''\<close>: the
  input is scanned from the left; where the expression matches, the matched text is
  dropped and the scan goes on after it; elsewhere (and after an empty match) one code
  unit is kept and the scan moves one unit on.
\<close>

fun remove_all :: "regexp \<Rightarrow> code_unit option \<Rightarrow> jsstring \<Rightarrow> jsstring" where
  "remove_all re p s =
     (case m (fst re) (snd re) (p, s) of
        (p', s') # _ \<Rightarrow>
          if length s' < length s then remove_all re p' s'
          else (case s of [] \<Rightarrow> [] | c # cs \<Rightarrow> c # remove_all re (Some c) cs)
      | [] \<Rightarrow> (case s of [] \<Rightarrow> [] | c # cs \<Rightarrow> c # remove_all re (Some c) cs))"

text \<open>
  \<open>String.prototype.match\<close> with a global expression: the matched texts, from left to
  right, none overlapping another (the source turns the \<open>null\<close> of no match into \<open>[]\<close>).
\<close>

fun match_all :: "regexp \<Rightarrow> code_unit option \<Rightarrow> jsstring \<Rightarrow> jsstring list" where
  "match_all re p s =
     (case m (fst re) (snd re) (p, s) of
        (p', s') # _ \<Rightarrow>
          if length s' < length s
          then take (length s - length s') s # match_all re p' s'
          else [] # (case s of [] \<Rightarrow> [] | c # cs \<Rightarrow> match_all re (Some c) cs)
      | [] \<Rightarrow> (case s of [] \<Rightarrow> [] | c # cs \<Rightarrow> match_all re (Some c) cs))"

text \<open>
  A sufficient, syntactic condition for an expression to match non-empty text only.
\<close>

fun consumes :: "rx \<Rightarrow> bool" where
  "consumes Dot = True"
| "consumes (Set as) = True"
| "consumes (NSet as) = True"
| "consumes (Conc a b) = (consumes a \<or> consumes b)"
| "consumes (Alt a b) = (consumes a \<and> consumes b)"
| "consumes _ = False"

section \<open>The input sanitizer of the bridge\<close>

text \<open>
  \<^verbatim>\<open>/<script\b[^<]*(?:(?!<\/script>)<[^<]*)*<\/script>/gi\<close>,
  \<^verbatim>\<open>/javascript:/gi\<close> and \<^verbatim>\<open>/on\w+\s*=/gi\<close>.
\<close>

definition script_block :: regexp where
  "script_block = (True, cat [str ''<script'', WordB, Star (NSet [ch CHR ''<'']),
     Star (cat [NLook (str ''</script>''), Set [ch CHR ''<''], Star (NSet [ch CHR ''<''])]),
     str ''</script>''])"

definition javascript_uri :: regexp where
  "javascript_uri = (True, str ''javascript:'')"

definition event_handler :: regexp where
  "event_handler = (True, cat [str ''on'', many1 (Set [WordCh]), Star (Set [Space]), str ''=''])"

definition sanitize_string :: "jsstring \<Rightarrow> jsstring" where
  "sanitize_string s =
     remove_all event_handler None
       (remove_all javascript_uri None
         (remove_all script_block None s))"

text \<open>
  The assignment \<open>sanitized[key] = value\<close> on an object that started as \<open>{}\<close>. For the
  key \<open>__proto__\<close> it runs the setter inherited from \<open>Object.prototype\<close>: an object or
  \<open>null\<close> becomes the prototype, any other value is ignored, and no own property is made.
  For any other key the own property is written, in place when it is there already and
  at the end otherwise.
\<close>

fun is_object :: "jsval \<Rightarrow> bool" where
  "is_object (JArr xs) = True"
| "is_object (JObj p kvs) = True"
| "is_object _ = False"

fun put :: "jsstring \<Rightarrow> jsval \<Rightarrow> (jsstring \<times> jsval) list \<Rightarrow> (jsstring \<times> jsval) list" where
  "put key v [] = [(key, v)]"
| "put key v (kv # kvs) = (if fst kv = key then (key, v) # kvs else kv # put key v kvs)"

definition set_property ::
  "jsstring \<times> jsval \<Rightarrow> jsval option \<times> (jsstring \<times> jsval) list
    \<Rightarrow> jsval option \<times> (jsstring \<times> jsval) list" where
  "set_property kv obj =
     (if fst kv = js ''__proto__''
      then (if is_object (snd kv) \<or> snd kv = JNull then (Some (snd kv), snd obj) else obj)
      else (fst obj, put (fst kv) (snd kv) (snd obj)))"

text \<open>
  \<open>sanitizeInput\<close>. For an object, the loop over \<open>Object.keys(input)\<close> assigns the
  sanitized value of each own property to the new object, in order; the prototype of the
  input plays no part.
\<close>

primrec sanitizeInput :: "jsval \<Rightarrow> jsval" where
  "sanitizeInput JUndefined = JUndefined"
| "sanitizeInput JNull = JNull"
| "sanitizeInput (JBool b) = JBool b"
| "sanitizeInput (JNum n) = JNum n"
| "sanitizeInput (JStr s) = JStr (sanitize_string s)"
| "sanitizeInput (JArr xs) = JArr (map sanitizeInput xs)"
| "sanitizeInput (JObj p kvs) =
     (case fold set_property (map (map_prod id sanitizeInput) kvs) (None, []) of
        (p', kvs') \<Rightarrow> JObj p' kvs')"

text \<open>
  A string is free of the blocked patterns when none of the three expressions matches
  anywhere in it.
\<close>

definition blocked_free :: "jsstring \<Rightarrow> bool" where
  "blocked_free s =
     (\<not> test script_block s \<and> \<not> test javascript_uri s \<and> \<not> test event_handler s)"

section \<open>The channel whitelist and the bridge\<close>

definition ALLOWED_INVOKE_CHANNELS :: "jsstring list" where
  "ALLOWED_INVOKE_CHANNELS = map js
    [''run-hyperv-cmd'', ''execute-powershell'', ''get-vms'', ''get-vm-details'',
     ''start-vm'', ''stop-vm'', ''restart-vm'', ''shutdown-vm'', ''turnoff-vm'',
     ''delete-vm'', ''edit-vm'', ''launch-vmconnect'', ''check-hyperv'',
     ''get-physical-disks'', ''get-storage-pools'', ''get-volumes'', ''get-virtual-disks'',
     ''delete-virtual-disk'', ''get-vhds'', ''create-vhd'', ''attach-vhd'', ''detach-vhd'',
     ''resize-vhd'', ''convert-vhd'', ''compact-vhd'', ''delete-vhd'', ''get-vm-stores'',
     ''optimize-disk'', ''check-disk-health'',
     ''get-iso-library'', ''add-iso'', ''remove-iso'', ''browse-for-iso'',
     ''get-checkpoints'', ''create-checkpoint'', ''apply-checkpoint'', ''remove-checkpoint'',
     ''get-cluster-nodes'', ''get-cluster-status'', ''live-migrate-vm'',
     ''get-system-stats'', ''get-host-info'', ''get-resource-path'', ''get-app-icon-base64'',
     ''show-open-dialog'', ''show-save-dialog'',
     ''get-qos-policies'', ''create-qos-policy'', ''edit-qos-policy'', ''delete-qos-policy'']"

definition ALLOWED_SEND_CHANNELS :: "jsstring list" where
  "ALLOWED_SEND_CHANNELS = map js
    [''app-ready'', ''window-minimize'', ''window-maximize'', ''window-close'']"

definition ALLOWED_RECEIVE_CHANNELS :: "jsstring list" where
  "ALLOWED_RECEIVE_CHANNELS = map js [''vm-status-update'', ''task-progress'', ''notification'']"

text \<open>\<^verbatim>\<open>typeof channel === 'string' && allowedChannels.includes(channel)\<close>\<close>

definition isValidChannel :: "jsval \<Rightarrow> jsstring list \<Rightarrow> bool" where
  "isValidChannel channel allowedChannels =
     (case channel of JStr s \<Rightarrow> s \<in> set allowedChannels | _ \<Rightarrow> False)"

text \<open>
  What the bridge does to \<open>ipcRenderer\<close>, recorded as state: the calls of
  \<open>ipcRenderer.invoke\<close> and \<open>ipcRenderer.send\<close> in order, and the registered listeners.
  Each call of \<open>on\<close> wraps the callback in a new function; \<open>fresh\<close> numbers these
  wrappers, so that \<open>removeListener\<close> can name the one it removes.
\<close>

record 'cb ipc =
  invoked :: "(jsstring \<times> jsval list) list"
  sent :: "(jsstring \<times> jsval list) list"
  listeners :: "(jsstring \<times> nat \<times> 'cb) list"
  fresh :: nat

datatype bridge_error = NotAllowed jsval | InvokeFailed jsval

datatype unsubscribe = NoOp | RemoveListener jsstring nat

text \<open>The code units of a value that is known to be a string.\<close>

fun string_of :: "jsval \<Rightarrow> jsstring" where
  "string_of (JStr s) = s"
| "string_of _ = []"

text \<open>
  \<open>respond\<close> stands for the main process: what the handler of a channel answers to the
  arguments it receives, \<open>Inl\<close> when the returned promise is rejected.
\<close>

definition invoke ::
  "(jsstring \<Rightarrow> jsval list \<Rightarrow> jsval + jsval) \<Rightarrow> jsval \<Rightarrow> jsval list \<Rightarrow> 'cb ipc
    \<Rightarrow> (bridge_error + jsval) \<times> 'cb ipc" where
  "invoke respond channel args st =
     (if \<not> isValidChannel channel ALLOWED_INVOKE_CHANNELS
      then (Inl (NotAllowed channel), st)
      else let sanitizedArgs = map sanitizeInput args;
               st' = st\<lparr>invoked := invoked st @ [(string_of channel, sanitizedArgs)]\<rparr>
           in (case respond (string_of channel) sanitizedArgs of
                 Inl error \<Rightarrow> (Inl (InvokeFailed error), st')
               | Inr result \<Rightarrow> (Inr result, st')))"

definition send :: "jsval \<Rightarrow> jsval list \<Rightarrow> 'cb ipc \<Rightarrow> 'cb ipc" where
  "send channel args st =
     (if \<not> isValidChannel channel ALLOWED_SEND_CHANNELS then st
      else let sanitizedArgs = map sanitizeInput args
           in st\<lparr>sent := sent st @ [(string_of channel, sanitizedArgs)]\<rparr>)"

definition on :: "jsval \<Rightarrow> 'cb \<Rightarrow> 'cb ipc \<Rightarrow> unsubscribe \<times> 'cb ipc" where
  "on channel callback st =
     (if \<not> isValidChannel channel ALLOWED_RECEIVE_CHANNELS then (NoOp, st)
      else (RemoveListener (string_of channel) (fresh st),
            st\<lparr>listeners := listeners st @ [(string_of channel, fresh st, callback)],
               fresh := Suc (fresh st)\<rparr>))"

text \<open>Calling the function that \<open>on\<close> returned.\<close>

fun call_unsubscribe :: "unsubscribe \<Rightarrow> 'cb ipc \<Rightarrow> 'cb ipc" where
  "call_unsubscribe NoOp st = st"
| "call_unsubscribe (RemoveListener channel n) st =
     st\<lparr>listeners := filter (\<lambda>l. \<not> (fst l = channel \<and> fst (snd l) = n)) (listeners st)\<rparr>"

section \<open>The command safeguards of the main process\<close>

definition ALLOWED_CMDLETS :: "jsstring list" where
  "ALLOWED_CMDLETS = map js
    [''Get-VM'', ''Start-VM'', ''Stop-VM'', ''Restart-VM'', ''Remove-VM'', ''New-VM'',
     ''Set-VM'', ''Get-VMHost'', ''Set-VMHost'', ''Suspend-VM'', ''Resume-VM'',
     ''Save-VM'', ''Export-VM'', ''Import-VM'', ''Measure-VM'', ''Compare-VM'',
     ''Get-VMProcessor'', ''Set-VMProcessor'', ''Get-VMMemory'', ''Set-VMMemory'',
     ''Get-VMNetworkAdapter'', ''Add-VMNetworkAdapter'', ''Remove-VMNetworkAdapter'',
     ''Set-VMNetworkAdapter'', ''Get-VMHardDiskDrive'', ''Add-VMHardDiskDrive'',
     ''Remove-VMHardDiskDrive'', ''Set-VMHardDiskDrive'', ''Get-VMDvdDrive'',
     ''Add-VMDvdDrive'', ''Remove-VMDvdDrive'', ''Set-VMDvdDrive'', ''Get-VMFirmware'',
     ''Set-VMFirmware'', ''Get-VMBios'', ''Set-VMBios'', ''Get-VMIntegrationService'',
     ''Enable-VMIntegrationService'', ''Disable-VMIntegrationService'', ''Get-VMSnapshot'',
     ''Checkpoint-VM'', ''Remove-VMSnapshot'', ''Restore-VMSnapshot'',
     ''Rename-VMSnapshot'', ''Get-VMCheckpoint'', ''Remove-VMCheckpoint'',
     ''Restore-VMCheckpoint'', ''Get-VHD'', ''New-VHD'', ''Resize-VHD'', ''Convert-VHD'',
     ''Optimize-VHD'', ''Mount-VHD'', ''Dismount-VHD'', ''Test-VHD'', ''Set-VHD'',
     ''Merge-VHD'', ''Get-VMStoragePath'', ''Get-PhysicalDisk'', ''Get-Disk'',
     ''Get-Partition'', ''Get-Volume'', ''Get-StoragePool'', ''Optimize-Volume'',
     ''Get-VMSwitch'', ''New-VMSwitch'', ''Remove-VMSwitch'', ''Set-VMSwitch'',
     ''Get-VMSwitchExtension'', ''Get-NetAdapter'', ''Get-NetIPAddress'', ''Get-Cluster'',
     ''Get-ClusterNode'', ''Get-ClusterGroup'', ''Get-ClusterResource'',
     ''Move-ClusterVirtualMachineRole'', ''Get-ClusterSharedVolume'', ''Get-IscsiTarget'',
     ''Get-IscsiSession'', ''Get-IscsiConnection'', ''Connect-IscsiTarget'',
     ''Disconnect-IscsiTarget'', ''Get-InitiatorPort'', ''Get-MSDSMSupportedHW'',
     ''Get-MSDSMGlobalDefaultLoadBalancePolicy'', ''Get-Counter'', ''Get-CimInstance'',
     ''Get-WmiObject'', ''Get-Process'', ''Get-Module'', ''Get-Command'', ''Get-Service'',
     ''Get-ChildItem'', ''Test-Path'', ''Get-Content'', ''Get-Item'', ''Get-ItemProperty'',
     ''Measure-Object'', ''Select-Object'', ''Where-Object'', ''ForEach-Object'',
     ''Sort-Object'', ''Format-List'', ''ConvertTo-Json'', ''Write-Output'']"

text \<open>Shorthands: \<open>\s\<close>, a range of characters, and the backslash.\<close>

definition sp :: rx where
  "sp = Set [Space]"

definition rng :: "char \<Rightarrow> char \<Rightarrow> atom" where
  "rng a b = Rng (of_char a) (of_char b)"

definition bsl :: string where
  "bsl = [CHR 0x5C]"

text \<open>The deny-list, in the order of the source; every expression has the \<open>i\<close> flag.\<close>

definition BLOCKED_PATTERNS :: "regexp list" where
  "BLOCKED_PATTERNS = map (Pair True)
    [cat [str ''Remove-Item'', many1 sp, Star Dot, Star sp, str ''-Recurse''],
     cat [str ''Remove-Item'', many1 sp, Opt (Set [ch (CHR 0x27), ch (CHR 0x22)]),
          Set [rng CHR ''A'' CHR ''Z''], str '':'', str bsl],
     cat [str ''del'', many1 sp, str ''/'', Set [ch CHR ''s'', ch CHR ''q'', ch CHR ''f'']],
     cat [str ''rmdir'', many1 sp, str ''/s''],
     cat [str ''format'', many1 sp, Set [rng CHR ''a'' CHR ''z''], str '':''],

     str ''New-ItemProperty'',
     cat [str ''Set-ItemProperty'', Star Dot, str ''HKLM''],
     cat [str ''Set-ItemProperty'', Star Dot, str ''HKCU'', Star Dot, str (bsl @ ''Run'')],
     cat [str ''Remove-ItemProperty'', Star Dot, str ''HKLM''],
     cat [str ''reg'', many1 sp, str ''add''],
     cat [str ''reg'', many1 sp, str ''delete''],

     str ''New-ScheduledTask'',
     str ''Register-ScheduledTask'',
     cat [str ''schtasks'', many1 sp, str ''/create''],
     cat [str ''Startup'', Star Dot, str ''.lnk''],
     str (bsl @ ''Start Menu'' @ bsl @ ''Programs'' @ bsl @ ''Startup''),

     cat [str ''Invoke-WebRequest'', NLook (cat [Star Dot, str ''localhost''])],
     cat [str ''Invoke-RestMethod'', NLook (cat [Star Dot, str ''localhost''])],
     str ''Start-BitsTransfer'',
     str ''[Net.WebClient]'',
     cat [str ''curl'', many1 sp],
     cat [str ''wget'', many1 sp],

     str ''Get-Credential'',
     str ''ConvertTo-SecureString'',
     str ''mimikatz'',
     str ''-Credential'',

     str ''Invoke-Expression'',
     cat [str ''IEX'', Star sp, str ''(''],
     cat [str ''Invoke-Command'', Star Dot, str ''-ScriptBlock''],
     str ''[System.Reflection'',
     cat [str ''Add-Type'', Star Dot, str ''-TypeDefinition''],
     cat [str ''New-Object'', Star Dot, str ''Net.Sockets''],
     str ''$ExecutionContext'',
     str ''DownloadString'',
     str ''DownloadFile'',
     str ''EncodedCommand'',
     cat [str ''-enc'', many1 sp],
     str ''FromBase64String'',

     cat [str ''Stop-Service'', NLook (cat [Star Dot, str ''vmms''])],
     str ''Remove-Service'',
     str ''New-Service'',
     cat [str ''Stop-Process'', NLook (cat [Star Dot, str ''vmconnect''])],
     cat [str ''Start-Process'', NLook (cat [Star Dot, str ''vmconnect''])],

     cat [str ''Set-NetFirewallProfile'', Star Dot, str ''-Enabled'', Star Dot, str ''False''],
     str ''Disable-NetFirewallRule'',
     cat [str ''netsh'', Star Dot, str ''firewall'', Star Dot, str ''disable''],

     cat [str ''Set-MpPreference'', Star Dot, str ''-Disable''],
     cat [str ''Uninstall'', Star Dot, str ''Defender''],

     str (bsl @ ''Windows'' @ bsl @ ''System32'' @ bsl @ ''config''),
     str (bsl @ ''Windows'' @ bsl @ ''System32'' @ bsl @ ''drivers''),
     str (bsl @ ''Windows'' @ bsl @ ''SysWOW64'')]"

subsection \<open>Rate limiting\<close>

definition RATE_LIMIT_WINDOW :: int where
  "RATE_LIMIT_WINDOW = 1000"

definition RATE_LIMIT_MAX :: nat where
  "RATE_LIMIT_MAX = 10"

text \<open>
  \<open>isRateLimited\<close> reads the clock (\<open>Date.now()\<close>, in milliseconds) and the shared
  \<open>commandHistory\<close>; it returns its answer and the history it leaves behind.
\<close>

definition isRateLimited :: "int \<Rightarrow> int list \<Rightarrow> bool \<times> int list" where
  "isRateLimited now commandHistory =
     (let h = dropWhile (\<lambda>t. t < now - RATE_LIMIT_WINDOW) commandHistory
      in if length h \<ge> RATE_LIMIT_MAX then (True, h) else (False, h @ [now]))"

subsection \<open>Command safety\<close>

record verdict =
  safe :: bool
  reason :: "jsstring option"

text \<open>
  \<^verbatim>\<open>/([A-Z][a-z]+-[A-Z][a-zA-Z]+)/g\<close>, \<^verbatim>\<open>/^\s*\$[a-z]/i\<close>,
  \<^verbatim>\<open>/ConvertTo-Json|Write-Output/i\<close> and
  \<^verbatim>\<open>/^(Get-|Select-|Where-|ForEach-|Sort-|Format-|Measure-|Out-|Write-)/i\<close>.
\<close>

definition cmdletPattern :: regexp where
  "cmdletPattern = (False, cat [Set [rng CHR ''A'' CHR ''Z''], many1 (Set [rng CHR ''a'' CHR ''z'']),
     str ''-'', Set [rng CHR ''A'' CHR ''Z''],
     many1 (Set [rng CHR ''a'' CHR ''z'', rng CHR ''A'' CHR ''Z''])])"

definition variable_start :: regexp where
  "variable_start = (True, cat [Bos, Star sp, str ''$'', Set [rng CHR ''a'' CHR ''z'']])"

definition output_cmdlet :: regexp where
  "output_cmdlet = (True, Alt (str ''ConvertTo-Json'') (str ''Write-Output''))"

definition read_format_prefix :: regexp where
  "read_format_prefix = (True, cat [Bos,
     Alt (str ''Get-'') (Alt (str ''Select-'') (Alt (str ''Where-'') (Alt (str ''ForEach-'')
       (Alt (str ''Sort-'') (Alt (str ''Format-'') (Alt (str ''Measure-'')
         (Alt (str ''Out-'') (str ''Write-''))))))))])"

text \<open>
  The last loop of \<open>isCommandSafe\<close> only writes to the console: one warning for each
  found cmdlet that is neither in \<open>ALLOWED_CMDLETS\<close> nor starts with a read or format
  verb.
\<close>

definition unrecognized :: "jsstring list \<Rightarrow> jsstring list" where
  "unrecognized foundCmdlets =
     filter (\<lambda>cmdlet. cmdlet \<notin> set ALLOWED_CMDLETS \<and> \<not> test read_format_prefix cmdlet)
       foundCmdlets"

text \<open>
  \<open>isCommandSafe\<close> returns its verdict and the lines it wrote with \<open>console.warn\<close>.
  \<open>!command || typeof command !== 'string'\<close> holds of everything but a non-empty
  string.
\<close>

definition isCommandSafe :: "jsval \<Rightarrow> verdict \<times> jsstring list" where
  "isCommandSafe command =
     (case command of
        JStr s \<Rightarrow>
          if s = [] then (\<lparr>safe = False, reason = Some (js ''Invalid command'')\<rparr>, [])
          else (case find (\<lambda>pattern. test pattern s) BLOCKED_PATTERNS of
             Some pattern \<Rightarrow>
               (\<lparr>safe = False, reason = Some (js ''Command contains blocked pattern'')\<rparr>,
                [js ''Security: Blocked dangerous pattern in command''])
           | None \<Rightarrow>
               let foundCmdlets = match_all cmdletPattern None s
               in if length foundCmdlets = 0 \<and> (test variable_start s \<or> test output_cmdlet s)
                  then (\<lparr>safe = True, reason = None\<rparr>, [])
                  else (\<lparr>safe = True, reason = None\<rparr>,
                        map (\<lambda>cmdlet. js ''Security: Unrecognized cmdlet: '' @ cmdlet)
                          (unrecognized foundCmdlets)))
      | _ \<Rightarrow> (\<lparr>safe = False, reason = Some (js ''Invalid command'')\<rparr>, []))"

subsection \<open>The handler of \<open>run-hyperv-cmd\<close>\<close>

text \<open>\<open>sanitizeCommand\<close> removes the null units of a command.\<close>

definition sanitizeCommand :: "jsstring \<Rightarrow> jsstring" where
  "sanitizeCommand command = filter (\<lambda>c. c \<noteq> 0) command"

text \<open>\<^verbatim>\<open>.replace(/"/g, '`"')\<close> and \<^verbatim>\<open>.replace(/\r?\n/g, ' ')\<close>.\<close>

definition escape_quotes :: "jsstring \<Rightarrow> jsstring" where
  "escape_quotes s = concat (map (\<lambda>c. if c = 34 then [96, 34] else [c]) s)"

fun join_lines :: "jsstring \<Rightarrow> jsstring" where
  "join_lines [] = []"
| "join_lines (c # cs) =
     (if c = 10 then 32 # join_lines cs
      else if c = 13 \<and> cs \<noteq> [] \<and> hd cs = 10 then 32 # join_lines (tl cs)
      else c # join_lines cs)"

definition command_line :: "jsstring \<Rightarrow> jsstring" where
  "command_line command =
     js ''powershell -ExecutionPolicy Bypass -NoProfile -Command '' @ [34]
       @ join_lines (escape_quotes (sanitizeCommand command)) @ [34]"

text \<open>
  The outcome of \<open>execPromise\<close> is not in the hands of this program: the handler receives
  it as a function of the command line. A rejection carries its message and what the
  process had written (an absent field is the empty string).
\<close>

datatype exec_outcome =
    Resolved jsstring jsstring
  | Rejected jsstring jsstring jsstring

record response =
  success :: bool
  error :: "jsstring option"
  stdout :: "jsstring option"
  stderr :: "jsstring option"

text \<open>
  The state of the main process that the handler touches: the shared history of the rate
  limiter and, as a record of what was called, the commands handed to \<open>isCommandSafe\<close>
  and the command lines handed to \<open>execPromise\<close>.
\<close>

record main =
  commandHistory :: "int list"
  evaluated :: "jsval list"
  executed :: "jsstring list"

definition run_hyperv_cmd ::
  "(jsstring \<Rightarrow> exec_outcome) \<Rightarrow> int \<Rightarrow> jsval \<Rightarrow> main \<Rightarrow> response \<times> main" where
  "run_hyperv_cmd execPromise now command st =
     (case isRateLimited now (commandHistory st) of
        (True, h) \<Rightarrow>
          (\<lparr>success = False, error = Some (js ''Rate limit exceeded. Please slow down.''),
            stdout = None, stderr = None\<rparr>,
           st\<lparr>commandHistory := h\<rparr>)
      | (False, h) \<Rightarrow>
          let st1 = st\<lparr>commandHistory := h, evaluated := evaluated st @ [command]\<rparr>
          in if \<not> safe (fst (isCommandSafe command))
             then (\<lparr>success = False, error = Some (js ''Command blocked for security reasons''),
                    stdout = None, stderr = None\<rparr>, st1)
             else let line = command_line (string_of command);
                      st2 = st1\<lparr>executed := executed st1 @ [line]\<rparr>
                  in (case execPromise line of
                        Resolved out err \<Rightarrow>
                          (\<lparr>success = True, error = None, stdout = Some out, stderr = Some err\<rparr>,
                           st2)
                      | Rejected message err out \<Rightarrow>
                          (\<lparr>success = False,
                            error = Some (if message = [] then js ''Unknown error'' else message),
                            stdout = Some out, stderr = Some err\<rparr>, st2)))"

text \<open>The answers of a series of calls of \<open>isRateLimited\<close>, made at the given times.\<close>

fun calls :: "int list \<Rightarrow> int list \<Rightarrow> bool list \<times> int list" where
  "calls [] h = ([], h)"
| "calls (t # ts) h =
     (case isRateLimited t h of (r, h') \<Rightarrow>
        (case calls ts h' of (rs, h'') \<Rightarrow> (r # rs, h'')))"

text \<open>
  A series of invocations of the handler, each with its time and its command: the
  responses, and the state left behind.
\<close>

fun handler_calls ::
  "(jsstring \<Rightarrow> exec_outcome) \<Rightarrow> (int \<times> jsval) list \<Rightarrow> main \<Rightarrow> response list \<times> main" where
  "handler_calls execPromise [] st = ([], st)"
| "handler_calls execPromise (x # xs) st =
     (case run_hyperv_cmd execPromise (fst x) (snd x) st of (r, st') \<Rightarrow>
        (case handler_calls execPromise xs st' of (rs, st'') \<Rightarrow> (r # rs, st'')))"

section \<open>The task tracker of the renderer\<close>

datatype status = Running | Success | Error | Cancelled

text \<open>
  A task as \<open>createTask\<close> builds it. Times are milliseconds (\<open>new Date()\<close>); \<open>progress\<close>
  is an integer, as every caller passes one.
\<close>

record task =
  task_id :: nat
  name :: jsstring
  target :: jsstring
  task_type :: jsstring
  status :: status
  progress :: int
  startTime :: int
  endTime :: "int option"

text \<open>
  The state of the tracker: \<open>tasksList\<close>, \<open>taskIdCounter\<close>, and the callbacks that
  \<open>completeTask\<close> has handed to \<open>setTimeout\<close> and that have not run yet, each with the
  time at which it is due and the task id it closes over, in the order of the calls.
  Rendering is left out: \<open>renderTasks\<close> only reads the list.
\<close>

record tracker =
  tasksList :: "task list"
  taskIdCounter :: nat
  timers :: "(int \<times> nat) list"

definition no_tasks :: tracker where
  "no_tasks = \<lparr>tasksList = [], taskIdCounter = 0, timers = []\<rparr>"

text \<open>\<open>tasksList.find(t => t.id === taskId)\<close>\<close>

definition find_task :: "nat \<Rightarrow> task list \<Rightarrow> task option" where
  "find_task taskId ts = find (\<lambda>t. task_id t = taskId) ts"

text \<open>
  The source changes the fields of the object that \<open>find\<close> returned, which is the first
  task of the list with that id.
\<close>

fun modify :: "nat \<Rightarrow> (task \<Rightarrow> task) \<Rightarrow> task list \<Rightarrow> task list" where
  "modify taskId f [] = []"
| "modify taskId f (t # ts) = (if task_id t = taskId then f t # ts else t # modify taskId f ts)"

definition createTask :: "int \<Rightarrow> jsstring \<Rightarrow> jsstring \<Rightarrow> jsstring \<Rightarrow> tracker \<Rightarrow> nat \<times> tracker" where
  "createTask now nm tg ty st =
     (let taskId = taskIdCounter st + 1;
          task = \<lparr>task_id = taskId, name = nm, target = tg, task_type = ty, status = Running,
                  progress = 0, startTime = now, endTime = None\<rparr>
      in (taskId, st\<lparr>tasksList := task # tasksList st, taskIdCounter := taskId\<rparr>))"

definition updateTaskProgress :: "nat \<Rightarrow> int \<Rightarrow> tracker \<Rightarrow> tracker" where
  "updateTaskProgress taskId prog st =
     (case find_task taskId (tasksList st) of
        None \<Rightarrow> st
      | Some task \<Rightarrow>
          if status task = Running
          then st\<lparr>tasksList :=
                 modify taskId (\<lambda>t. t\<lparr>progress := min 100 (max 0 prog)\<rparr>) (tasksList st)\<rparr>
          else st)"

definition completeTask :: "int \<Rightarrow> nat \<Rightarrow> bool \<Rightarrow> tracker \<Rightarrow> tracker" where
  "completeTask now taskId succ st =
     (case find_task taskId (tasksList st) of
        None \<Rightarrow> st
      | Some task \<Rightarrow>
          let st' = st\<lparr>tasksList :=
                modify taskId
                  (\<lambda>t. t\<lparr>status := (if succ then Success else Error), progress := 100,
                         endTime := Some now\<rparr>)
                  (tasksList st)\<rparr>
          in if succ then st'\<lparr>timers := timers st' @ [(now + 30000, taskId)]\<rparr> else st')"

definition cancelTask :: "int \<Rightarrow> nat \<Rightarrow> tracker \<Rightarrow> tracker" where
  "cancelTask now taskId st =
     (case find_task taskId (tasksList st) of
        None \<Rightarrow> st
      | Some task \<Rightarrow>
          if status task = Running
          then st\<lparr>tasksList :=
                 modify taskId (\<lambda>t. t\<lparr>status := Cancelled, endTime := Some now\<rparr>) (tasksList st)\<rparr>
          else st)"

definition clearCompletedTasks :: "tracker \<Rightarrow> tracker" where
  "clearCompletedTasks st = st\<lparr>tasksList := filter (\<lambda>t. status t = Running) (tasksList st)\<rparr>"

text \<open>
  The callback of the timer: \<open>findIndex\<close> gives the first task with the id; it is cut
  out of the list when its status is \<open>success\<close> at that moment.
\<close>

fun auto_remove :: "nat \<Rightarrow> task list \<Rightarrow> task list" where
  "auto_remove taskId [] = []"
| "auto_remove taskId (t # ts) =
     (if task_id t = taskId then (if status t = Success then ts else t # ts)
      else t # auto_remove taskId ts)"

text \<open>
  The event loop at time \<open>now\<close>: the callbacks that are due run, earliest first and, among
  those due at the same time, in the order in which they were scheduled; the others stay.
\<close>

definition run_timers :: "int \<Rightarrow> tracker \<Rightarrow> tracker" where
  "run_timers now st =
     st\<lparr>tasksList :=
          fold (\<lambda>timer ts. auto_remove (snd timer) ts)
            (sort_key fst (filter (\<lambda>timer. fst timer \<le> now) (timers st))) (tasksList st),
        timers := filter (\<lambda>timer. \<not> fst timer \<le> now) (timers st)\<rparr>"

text \<open>The operations on the tracker, and a run of them, each at its own time.\<close>

datatype operation =
    Create jsstring jsstring jsstring
  | Update nat int
  | Complete nat bool
  | Cancel nat
  | Clear
  | Elapse

fun step :: "int \<times> operation \<Rightarrow> tracker \<Rightarrow> tracker" where
  "step (now, Create nm tg ty) st = snd (createTask now nm tg ty st)"
| "step (now, Update taskId prog) st = updateTaskProgress taskId prog st"
| "step (now, Complete taskId succ) st = completeTask now taskId succ st"
| "step (now, Cancel taskId) st = cancelTask now taskId st"
| "step (now, Clear) st = clearCompletedTasks st"
| "step (now, Elapse) st = run_timers now st"

definition run :: "(int \<times> operation) list \<Rightarrow> tracker \<Rightarrow> tracker" where
  "run ops st = fold step ops st"

text \<open>
  What holds of the tracker in every state that the operations can reach from the empty
  one: the ids in the list are distinct and none exceeds the counter, every progress lies
  between 0 and 100, and a task that ended as a success or an error has progress 100.
\<close>

definition tracker_inv :: "tracker \<Rightarrow> bool" where
  "tracker_inv st =
     (distinct (map task_id (tasksList st))
      \<and> (\<forall>t\<in>set (tasksList st).
            task_id t \<le> taskIdCounter st \<and> 0 \<le> progress t \<and> progress t \<le> 100
            \<and> (status t = Success \<or> status t = Error \<longrightarrow> progress t = 100)))"

text \<open>
  A removal of task \<open>k\<close> is pending when the id has been handed out and either the task
  is not in the list or it is there with status success and a callback for it is waiting.
\<close>

definition removal_pending :: "nat \<Rightarrow> int \<Rightarrow> tracker \<Rightarrow> bool" where
  "removal_pending k due st =
     (k \<le> taskIdCounter st
      \<and> (find_task k (tasksList st) = None
          \<or> (\<exists>t. find_task k (tasksList st) = Some t \<and> status t = Success)
             \<and> (due, k) \<in> set (timers st)))"

section \<open>Evaluating the expressions\<close>

lemmas rx_defs = js_def str_def many1_def ch_def rng_def sp_def bsl_def
  canonicalize_def swapcase_def is_word_def is_space_def is_line_terminator_def
  before_word_def after_word_def test_def

section \<open>The channel whitelist fails closed\<close>

lemma isValidChannel_iff:
  "isValidChannel channel allowed \<longleftrightarrow> (\<exists>s. channel = JStr s \<and> s \<in> set allowed)"
  by (cases channel) (simp_all add: isValidChannel_def)

text \<open>
  C1. A channel passes a direction's check exactly when it is a string equal, unit by
  unit, to an entry of that direction's list. On any other channel \<open>invoke\<close> is rejected
  with the authorization error and \<open>ipcRenderer\<close> is left untouched, \<open>send\<close> does
  nothing, and \<open>on\<close> registers no listener and returns a function that does nothing.
\<close>

theorem whitelist_fail_closed:
  "(isValidChannel channel allowed \<longleftrightarrow> (\<exists>s. channel = JStr s \<and> s \<in> set allowed))
   \<and> (\<not> isValidChannel channel ALLOWED_INVOKE_CHANNELS \<longrightarrow>
        invoke respond channel args st = (Inl (NotAllowed channel), st))
   \<and> (\<not> isValidChannel channel ALLOWED_SEND_CHANNELS \<longrightarrow> send channel args st = st)
   \<and> (\<not> isValidChannel channel ALLOWED_RECEIVE_CHANNELS \<longrightarrow>
        on channel callback st = (NoOp, st) \<and> (\<forall>st'::'cb ipc. call_unsubscribe NoOp st' = st'))"
  by (simp add: isValidChannel_iff invoke_def send_def on_def)

theorem whitelist_fail_closed_witness:
  "\<not> isValidChannel (JStr (js ''drop-database'')) ALLOWED_INVOKE_CHANNELS
   \<and> \<not> isValidChannel (JStr (js ''drop-database'')) ALLOWED_SEND_CHANNELS
   \<and> \<not> isValidChannel (JStr (js ''drop-database'')) ALLOWED_RECEIVE_CHANNELS
   \<and> invoke (\<lambda>c a. Inr JNull) (JStr (js ''drop-database'')) [JStr (js ''x'')]
        \<lparr>invoked = [], sent = [], listeners = [], fresh = 0\<rparr>
      = (Inl (NotAllowed (JStr (js ''drop-database''))),
         \<lparr>invoked = [], sent = [], listeners = ([] :: (jsstring \<times> nat \<times> unit) list), fresh = 0\<rparr>)"
  using whitelist_fail_closed [of "JStr (js ''drop-database'')" ALLOWED_INVOKE_CHANNELS
     "\<lambda>c a. Inr JNull" "[JStr (js ''x'')]"
     "\<lparr>invoked = [], sent = [], listeners = ([] :: (jsstring \<times> nat \<times> unit) list), fresh = 0\<rparr>" "()"]
  by (simp add: isValidChannel_def ALLOWED_INVOKE_CHANNELS_def ALLOWED_SEND_CHANNELS_def
      ALLOWED_RECEIVE_CHANNELS_def js_def)

section \<open>The deny-list comes first\<close>

text \<open>No deny-pattern matches the empty command.\<close>

lemma blocked_patterns_consume: "list_all (\<lambda>p. \<not> test p []) BLOCKED_PATTERNS"
  by (simp add: BLOCKED_PATTERNS_def rx_defs)

text \<open>
  C2. Whenever some deny-pattern matches a command string, the verdict of
  \<open>isCommandSafe\<close> is unsafe, with the reason of the deny-list, whatever else the
  command contains: the scan of the deny-list is the first thing done with a command,
  and its first match returns.
\<close>

theorem deny_list_precedence:
  assumes "\<exists>pattern\<in>set BLOCKED_PATTERNS. test pattern s"
  shows "fst (isCommandSafe (JStr s)) =
    \<lparr>safe = False, reason = Some (js ''Command contains blocked pattern'')\<rparr>"
proof -
  from assms obtain p where p: "p \<in> set BLOCKED_PATTERNS" "test p s" by blast
  have "s \<noteq> []"
    using p blocked_patterns_consume by (auto simp: list_all_iff)
  moreover have "find (\<lambda>pattern. test pattern s) BLOCKED_PATTERNS \<noteq> None"
    unfolding find_None_iff using p by blast
  ultimately show ?thesis
    by (auto simp: isCommandSafe_def)
qed

text \<open>An allowed VM verb followed by a recursive delete.\<close>

theorem deny_list_precedence_witness:
  "(\<exists>pattern\<in>set BLOCKED_PATTERNS. test pattern (js ''Get-VM;Remove-Item x -Recurse''))
   \<and> js ''Get-VM'' \<in> set (match_all cmdletPattern None (js ''Get-VM;Remove-Item x -Recurse''))
   \<and> js ''Get-VM'' \<in> set ALLOWED_CMDLETS
   \<and> \<not> safe (fst (isCommandSafe (JStr (js ''Get-VM;Remove-Item x -Recurse''))))"
proof -
  have m: "test (hd BLOCKED_PATTERNS) (js ''Get-VM;Remove-Item x -Recurse'')"
    by (simp add: BLOCKED_PATTERNS_def rx_defs)
  have "hd BLOCKED_PATTERNS \<in> set BLOCKED_PATTERNS"
    by (simp add: BLOCKED_PATTERNS_def)
  with m have h:
    "\<exists>pattern\<in>set BLOCKED_PATTERNS. test pattern (js ''Get-VM;Remove-Item x -Recurse'')"
    by blast
  have c: "js ''Get-VM''
      \<in> set (match_all cmdletPattern None (js ''Get-VM;Remove-Item x -Recurse''))"
    by (simp add: cmdletPattern_def rx_defs)
  have a: "js ''Get-VM'' \<in> set ALLOWED_CMDLETS"
    by (simp add: ALLOWED_CMDLETS_def js_def)
  from deny_list_precedence [OF h] h c a show ?thesis by simp
qed

section \<open>Commands without a cmdlet\<close>

text \<open>
  C5. The command \<open>whoami\<close> clears the deny-list, contains no verb-noun token, does not
  start with a variable and names neither output cmdlet; \<open>isCommandSafe\<close> answers
  that it is safe all the same. The test for the narrow allowance returns \<open>safe\<close> early,
  and a command that fails the test falls through the empty loop to the same answer.
\<close>

theorem zero_token_command_permitted:
  "find (\<lambda>pattern. test pattern (js ''whoami'')) BLOCKED_PATTERNS = None
   \<and> match_all cmdletPattern None (js ''whoami'') = []
   \<and> \<not> test variable_start (js ''whoami'')
   \<and> \<not> test output_cmdlet (js ''whoami'')
   \<and> isCommandSafe (JStr (js ''whoami'')) = (\<lparr>safe = True, reason = None\<rparr>, [])"
  by (simp add: isCommandSafe_def BLOCKED_PATTERNS_def cmdletPattern_def variable_start_def
      output_cmdlet_def unrecognized_def rx_defs)

section \<open>The rate limiter\<close>

lemma calls_snoc:
  "calls (ts @ [t]) h =
     (case calls ts h of (rs, h') \<Rightarrow> (case isRateLimited t h' of (r, h'') \<Rightarrow> (rs @ [r], h'')))"
  by (induction ts arbitrary: h) (auto split: prod.splits)

lemma isRateLimited_pass:
  "dropWhile (\<lambda>x. x < now - RATE_LIMIT_WINDOW) h = h' \<Longrightarrow> length h' < RATE_LIMIT_MAX
    \<Longrightarrow> isRateLimited now h = (False, h' @ [now])"
  by (auto simp: isRateLimited_def Let_def)

lemma isRateLimited_full:
  "dropWhile (\<lambda>x. x < now - RATE_LIMIT_WINDOW) h = h' \<Longrightarrow> RATE_LIMIT_MAX \<le> length h'
    \<Longrightarrow> isRateLimited now h = (True, h')"
  by (auto simp: isRateLimited_def Let_def)

lemma calls_within_window:
  "ts \<noteq> [] \<Longrightarrow> sorted ts \<Longrightarrow> last ts \<le> hd ts + RATE_LIMIT_WINDOW
    \<Longrightarrow> \<forall>t\<in>set h0. t < hd ts - RATE_LIMIT_WINDOW \<Longrightarrow> length ts \<le> RATE_LIMIT_MAX
    \<Longrightarrow> calls ts h0 = (replicate (length ts) False, ts)"
proof (induction ts rule: rev_induct)
  case Nil
  then show ?case by simp
next
  case (snoc t xs)
  show ?case
  proof (cases "xs = []")
    case True
    have "dropWhile (\<lambda>x. x < t - RATE_LIMIT_WINDOW) h0 = []"
      using snoc.prems(4) True by (simp add: dropWhile_eq_Nil_conv)
    then have "isRateLimited t h0 = (False, [] @ [t])"
      by (rule isRateLimited_pass) (simp add: RATE_LIMIT_MAX_def)
    then show ?thesis
      using True by simp
  next
    case False
    have srt: "sorted xs" and le: "\<forall>x\<in>set xs. x \<le> t"
      using snoc.prems(2) by (auto simp: sorted_append)
    have hd: "hd (xs @ [t]) = hd xs" using False by simp
    have "last xs \<le> t" using le False by simp
    then have ih: "calls xs h0 = (replicate (length xs) False, xs)"
      using snoc.IH [OF False srt] snoc.prems hd by simp
    have "\<not> hd xs < t - RATE_LIMIT_WINDOW"
      using snoc.prems(3) hd by simp
    then have "dropWhile (\<lambda>x. x < t - RATE_LIMIT_WINDOW) xs = xs"
      using False by (cases xs) simp_all
    moreover have "length xs < RATE_LIMIT_MAX" using snoc.prems(5) by simp
    ultimately have "isRateLimited t xs = (False, xs @ [t])"
      by (rule isRateLimited_pass)
    then show ?thesis
      by (simp add: calls_snoc ih replicate_append_same)
  qed
qed

text \<open>
  Once \<open>isRateLimited\<close> has let a call through, the answer of the handler depends on the
  verdict of \<open>isCommandSafe\<close> and on the outcome of the execution alone, and the command
  has been handed to \<open>isCommandSafe\<close>.
\<close>

lemma run_hyperv_cmd_passed:
  assumes "isRateLimited now (commandHistory st) = (False, h)"
  shows "fst (run_hyperv_cmd execPromise now c st) =
      (if \<not> safe (fst (isCommandSafe c))
       then \<lparr>success = False, error = Some (js ''Command blocked for security reasons''),
              stdout = None, stderr = None\<rparr>
       else (case execPromise (command_line (string_of c)) of
               Resolved out err \<Rightarrow>
                 \<lparr>success = True, error = None, stdout = Some out, stderr = Some err\<rparr>
             | Rejected message err out \<Rightarrow>
                 \<lparr>success = False,
                   error = Some (if message = [] then js ''Unknown error'' else message),
                   stdout = Some out, stderr = Some err\<rparr>))
    \<and> commandHistory (snd (run_hyperv_cmd execPromise now c st)) = h
    \<and> evaluated (snd (run_hyperv_cmd execPromise now c st)) = evaluated st @ [c]"
  using assms by (simp add: run_hyperv_cmd_def Let_def split: exec_outcome.splits)

lemma handler_calls_passed:
  "calls (map fst xs) (commandHistory st) = (rs, h') \<Longrightarrow> \<forall>r\<in>set rs. \<not> r \<Longrightarrow>
     fst (handler_calls execPromise xs st) =
       map (\<lambda>x.
         (if \<not> safe (fst (isCommandSafe (snd x)))
          then \<lparr>success = False, error = Some (js ''Command blocked for security reasons''),
                 stdout = None, stderr = None\<rparr>
          else (case execPromise (command_line (string_of (snd x))) of
                  Resolved out err \<Rightarrow>
                    \<lparr>success = True, error = None, stdout = Some out, stderr = Some err\<rparr>
                | Rejected message err out \<Rightarrow>
                    \<lparr>success = False,
                      error = Some (if message = [] then js ''Unknown error'' else message),
                      stdout = Some out, stderr = Some err\<rparr>))) xs
     \<and> commandHistory (snd (handler_calls execPromise xs st)) = h'
     \<and> evaluated (snd (handler_calls execPromise xs st)) = evaluated st @ map snd xs"
proof (induction xs arbitrary: st rs)
  case Nil
  then show ?case by simp
next
  case (Cons x xs)
  obtain r h1 where a: "isRateLimited (fst x) (commandHistory st) = (r, h1)"
    by (cases "isRateLimited (fst x) (commandHistory st)")
  obtain rs1 h2 where b: "calls (map fst xs) h1 = (rs1, h2)"
    by (cases "calls (map fst xs) h1")
  from Cons.prems(1) a b have rs: "rs = r # rs1" and h': "h' = h2" by simp_all
  with Cons.prems(2) have r: "\<not> r" and rs1: "\<forall>b\<in>set rs1. \<not> b" by auto
  obtain resp st1 where c: "run_hyperv_cmd execPromise (fst x) (snd x) st = (resp, st1)"
    by (cases "run_hyperv_cmd execPromise (fst x) (snd x) st")
  from a r have a': "isRateLimited (fst x) (commandHistory st) = (False, h1)" by simp
  from run_hyperv_cmd_passed [OF a', of execPromise "snd x"] c
  have resp: "resp =
      (if \<not> safe (fst (isCommandSafe (snd x)))
       then \<lparr>success = False, error = Some (js ''Command blocked for security reasons''),
              stdout = None, stderr = None\<rparr>
       else (case execPromise (command_line (string_of (snd x))) of
               Resolved out err \<Rightarrow>
                 \<lparr>success = True, error = None, stdout = Some out, stderr = Some err\<rparr>
             | Rejected message err out \<Rightarrow>
                 \<lparr>success = False,
                   error = Some (if message = [] then js ''Unknown error'' else message),
                   stdout = Some out, stderr = Some err\<rparr>))"
    and h1: "commandHistory st1 = h1" and ev: "evaluated st1 = evaluated st @ [snd x]"
    by simp_all
  from b h1 h' have "calls (map fst xs) (commandHistory st1) = (rs1, h')" by simp
  note ih = Cons.IH [OF this rs1]
  obtain rs2 st2 where d: "handler_calls execPromise xs st1 = (rs2, st2)"
    by (cases "handler_calls execPromise xs st1")
  have "handler_calls execPromise (x # xs) st = (resp # rs2, st2)"
    by (simp add: c d)
  with ih d resp ev show ?case by simp
qed

text \<open>
  C6. Ten invocations (\<open>RATE_LIMIT_MAX\<close>) of the handler made in order within one
  window of 1000 ms, on a history whose entries have all expired, all pass the rate
  limiter: each command is handed to \<open>isCommandSafe\<close> and answered according to its
  verdict and the outcome of its execution, and the ten times are left as the history.
  Any further invocation within the window of the first of them is answered with the
  rate-limit error, whatever the command: nothing is handed to \<open>isCommandSafe\<close> or to
  \<open>execPromise\<close>, and the history is unchanged. An invocation made after that window
  has elapsed passes again.
\<close>

theorem rate_limiter_boundary:
  assumes "length ts = RATE_LIMIT_MAX" and "sorted ts"
    and "last ts \<le> hd ts + RATE_LIMIT_WINDOW"
    and "\<forall>t\<in>set h0. t < hd ts - RATE_LIMIT_WINDOW"
    and "length commands = RATE_LIMIT_MAX"
  shows "calls ts h0 = (replicate RATE_LIMIT_MAX False, ts)
    \<and> fst (handler_calls execPromise (zip ts commands)
            \<lparr>commandHistory = h0, evaluated = ev0, executed = ex0\<rparr>) =
        map (\<lambda>c.
          (if \<not> safe (fst (isCommandSafe c))
           then \<lparr>success = False, error = Some (js ''Command blocked for security reasons''),
                  stdout = None, stderr = None\<rparr>
           else (case execPromise (command_line (string_of c)) of
                   Resolved out err \<Rightarrow>
                     \<lparr>success = True, error = None, stdout = Some out, stderr = Some err\<rparr>
                 | Rejected message err out \<Rightarrow>
                     \<lparr>success = False,
                       error = Some (if message = [] then js ''Unknown error'' else message),
                       stdout = Some out, stderr = Some err\<rparr>))) commands
    \<and> commandHistory (snd (handler_calls execPromise (zip ts commands)
            \<lparr>commandHistory = h0, evaluated = ev0, executed = ex0\<rparr>)) = ts
    \<and> evaluated (snd (handler_calls execPromise (zip ts commands)
            \<lparr>commandHistory = h0, evaluated = ev0, executed = ex0\<rparr>)) = ev0 @ commands
    \<and> (\<forall>now command. now \<le> hd ts + RATE_LIMIT_WINDOW \<longrightarrow>
          run_hyperv_cmd execPromise now command
            \<lparr>commandHistory = ts, evaluated = ev, executed = ex\<rparr>
          = (\<lparr>success = False, error = Some (js ''Rate limit exceeded. Please slow down.''),
              stdout = None, stderr = None\<rparr>,
             \<lparr>commandHistory = ts, evaluated = ev, executed = ex\<rparr>))
    \<and> (\<forall>now. hd ts + RATE_LIMIT_WINDOW < now \<longrightarrow> \<not> fst (isRateLimited now ts))
    \<and> (\<forall>now command. hd ts + RATE_LIMIT_WINDOW < now \<longrightarrow>
          fst (run_hyperv_cmd execPromise now command
            \<lparr>commandHistory = ts, evaluated = ev, executed = ex\<rparr>) =
            (if \<not> safe (fst (isCommandSafe command))
             then \<lparr>success = False, error = Some (js ''Command blocked for security reasons''),
                    stdout = None, stderr = None\<rparr>
             else (case execPromise (command_line (string_of command)) of
                     Resolved out err \<Rightarrow>
                       \<lparr>success = True, error = None, stdout = Some out, stderr = Some err\<rparr>
                   | Rejected message err out \<Rightarrow>
                       \<lparr>success = False,
                         error = Some (if message = [] then js ''Unknown error'' else message),
                         stdout = Some out, stderr = Some err\<rparr>))
          \<and> evaluated (snd (run_hyperv_cmd execPromise now command
            \<lparr>commandHistory = ts, evaluated = ev, executed = ex\<rparr>)) = ev @ [command])"
proof -
  have ne: "ts \<noteq> []" using assms(1) by (auto simp: RATE_LIMIT_MAX_def)
  have first: "calls ts h0 = (replicate RATE_LIMIT_MAX False, ts)"
    using calls_within_window [OF ne assms(2) assms(3) assms(4)] assms(1) by simp
  have len: "length ts = length commands" using assms(1,5) by simp
  have z: "map fst (zip ts commands) = ts" "map snd (zip ts commands) = commands"
    using len by (simp_all add: map_fst_zip map_snd_zip)
  let ?st0 = "\<lparr>commandHistory = h0, evaluated = ev0, executed = ex0\<rparr>"
  have "calls (map fst (zip ts commands)) (commandHistory ?st0)
      = (replicate RATE_LIMIT_MAX False, ts)"
    using first z by simp
  from handler_calls_passed [OF this, of execPromise]
  have hc: "fst (handler_calls execPromise (zip ts commands) ?st0) =
        map (\<lambda>x.
          (if \<not> safe (fst (isCommandSafe (snd x)))
           then \<lparr>success = False, error = Some (js ''Command blocked for security reasons''),
                  stdout = None, stderr = None\<rparr>
           else (case execPromise (command_line (string_of (snd x))) of
                   Resolved out err \<Rightarrow>
                     \<lparr>success = True, error = None, stdout = Some out, stderr = Some err\<rparr>
                 | Rejected message err out \<Rightarrow>
                     \<lparr>success = False,
                       error = Some (if message = [] then js ''Unknown error'' else message),
                       stdout = Some out, stderr = Some err\<rparr>))) (zip ts commands)
      \<and> commandHistory (snd (handler_calls execPromise (zip ts commands) ?st0)) = ts
      \<and> evaluated (snd (handler_calls execPromise (zip ts commands) ?st0))
          = evaluated ?st0 @ map snd (zip ts commands)"
    by simp
  have "map (\<lambda>x.
          (if \<not> safe (fst (isCommandSafe (snd x)))
           then \<lparr>success = False, error = Some (js ''Command blocked for security reasons''),
                  stdout = None, stderr = None\<rparr>
           else (case execPromise (command_line (string_of (snd x))) of
                   Resolved out err \<Rightarrow>
                     \<lparr>success = True, error = None, stdout = Some out, stderr = Some err\<rparr>
                 | Rejected message err out \<Rightarrow>
                     \<lparr>success = False,
                       error = Some (if message = [] then js ''Unknown error'' else message),
                       stdout = Some out, stderr = Some err\<rparr>))) (zip ts commands)
      = map (\<lambda>c.
          (if \<not> safe (fst (isCommandSafe c))
           then \<lparr>success = False, error = Some (js ''Command blocked for security reasons''),
                  stdout = None, stderr = None\<rparr>
           else (case execPromise (command_line (string_of c)) of
                   Resolved out err \<Rightarrow>
                     \<lparr>success = True, error = None, stdout = Some out, stderr = Some err\<rparr>
                 | Rejected message err out \<Rightarrow>
                     \<lparr>success = False,
                       error = Some (if message = [] then js ''Unknown error'' else message),
                       stdout = Some out, stderr = Some err\<rparr>))) (map snd (zip ts commands))"
    by (simp add: comp_def)
  with hc z have served: "fst (handler_calls execPromise (zip ts commands) ?st0) =
        map (\<lambda>c.
          (if \<not> safe (fst (isCommandSafe c))
           then \<lparr>success = False, error = Some (js ''Command blocked for security reasons''),
                  stdout = None, stderr = None\<rparr>
           else (case execPromise (command_line (string_of c)) of
                   Resolved out err \<Rightarrow>
                     \<lparr>success = True, error = None, stdout = Some out, stderr = Some err\<rparr>
                 | Rejected message err out \<Rightarrow>
                     \<lparr>success = False,
                       error = Some (if message = [] then js ''Unknown error'' else message),
                       stdout = Some out, stderr = Some err\<rparr>))) commands
      \<and> commandHistory (snd (handler_calls execPromise (zip ts commands) ?st0)) = ts
      \<and> evaluated (snd (handler_calls execPromise (zip ts commands) ?st0)) = ev0 @ commands"
    by simp
  have limited: "isRateLimited now ts = (True, ts)" if "now \<le> hd ts + RATE_LIMIT_WINDOW" for now
  proof -
    have "\<not> hd ts < now - RATE_LIMIT_WINDOW" using that by simp
    then have "dropWhile (\<lambda>x. x < now - RATE_LIMIT_WINDOW) ts = ts"
      using ne by (cases ts) simp_all
    then show ?thesis using assms(1) by (intro isRateLimited_full) simp_all
  qed
  have again: "\<exists>h. isRateLimited now ts = (False, h)" if "hd ts + RATE_LIMIT_WINDOW < now" for now
  proof -
    obtain x xs where ts: "ts = x # xs" using ne by (cases ts) auto
    have "x < now - RATE_LIMIT_WINDOW" using that ts by simp
    then have "dropWhile (\<lambda>x. x < now - RATE_LIMIT_WINDOW) ts
        = dropWhile (\<lambda>x. x < now - RATE_LIMIT_WINDOW) xs"
      using ts by simp
    moreover have "length (dropWhile (\<lambda>x. x < now - RATE_LIMIT_WINDOW) xs) \<le> length xs"
      by (rule length_dropWhile_le)
    moreover have "length xs < RATE_LIMIT_MAX" using assms(1) ts by simp
    ultimately have "isRateLimited now ts
        = (False, dropWhile (\<lambda>x. x < now - RATE_LIMIT_WINDOW) xs @ [now])"
      by (intro isRateLimited_pass) simp_all
    then show ?thesis by blast
  qed
  have rejected: "\<forall>now command. now \<le> hd ts + RATE_LIMIT_WINDOW \<longrightarrow>
          run_hyperv_cmd execPromise now command
            \<lparr>commandHistory = ts, evaluated = ev, executed = ex\<rparr>
          = (\<lparr>success = False, error = Some (js ''Rate limit exceeded. Please slow down.''),
              stdout = None, stderr = None\<rparr>,
             \<lparr>commandHistory = ts, evaluated = ev, executed = ex\<rparr>)"
    using limited by (simp add: run_hyperv_cmd_def)
  have free: "\<forall>now. hd ts + RATE_LIMIT_WINDOW < now \<longrightarrow> \<not> fst (isRateLimited now ts)"
    using again by fastforce
  have later: "\<forall>now command. hd ts + RATE_LIMIT_WINDOW < now \<longrightarrow>
          fst (run_hyperv_cmd execPromise now command
            \<lparr>commandHistory = ts, evaluated = ev, executed = ex\<rparr>) =
            (if \<not> safe (fst (isCommandSafe command))
             then \<lparr>success = False, error = Some (js ''Command blocked for security reasons''),
                    stdout = None, stderr = None\<rparr>
             else (case execPromise (command_line (string_of command)) of
                     Resolved out err \<Rightarrow>
                       \<lparr>success = True, error = None, stdout = Some out, stderr = Some err\<rparr>
                   | Rejected message err out \<Rightarrow>
                       \<lparr>success = False,
                         error = Some (if message = [] then js ''Unknown error'' else message),
                         stdout = Some out, stderr = Some err\<rparr>))
          \<and> evaluated (snd (run_hyperv_cmd execPromise now command
            \<lparr>commandHistory = ts, evaluated = ev, executed = ex\<rparr>)) = ev @ [command]"
  proof (intro allI impI)
    fix now :: int and command
    assume "hd ts + RATE_LIMIT_WINDOW < now"
    from again [OF this] obtain h where h: "isRateLimited now ts = (False, h)" by blast
    then have "isRateLimited now
        (commandHistory \<lparr>commandHistory = ts, evaluated = ev, executed = ex\<rparr>) = (False, h)"
      by simp
    from run_hyperv_cmd_passed [OF this, of execPromise command]
    show "fst (run_hyperv_cmd execPromise now command
            \<lparr>commandHistory = ts, evaluated = ev, executed = ex\<rparr>) =
            (if \<not> safe (fst (isCommandSafe command))
             then \<lparr>success = False, error = Some (js ''Command blocked for security reasons''),
                    stdout = None, stderr = None\<rparr>
             else (case execPromise (command_line (string_of command)) of
                     Resolved out err \<Rightarrow>
                       \<lparr>success = True, error = None, stdout = Some out, stderr = Some err\<rparr>
                   | Rejected message err out \<Rightarrow>
                       \<lparr>success = False,
                         error = Some (if message = [] then js ''Unknown error'' else message),
                         stdout = Some out, stderr = Some err\<rparr>))
          \<and> evaluated (snd (run_hyperv_cmd execPromise now command
            \<lparr>commandHistory = ts, evaluated = ev, executed = ex\<rparr>)) = ev @ [command]"
      by simp
  qed
  from first served rejected free later show ?thesis by (intro conjI) simp_all
qed

text \<open>
  Ten invocations with the command \<open>Get-VM\<close>, 100 ms apart, are all executed; one more
  at 1000 ms is refused, and one at 1001 ms is executed.
\<close>

theorem rate_limiter_boundary_witness:
  "length [0, 100, 200, 300, 400, 500, 600, 700, 800, 900 :: int] = RATE_LIMIT_MAX
   \<and> sorted [0, 100, 200, 300, 400, 500, 600, 700, 800, 900 :: int]
   \<and> (- 5000 :: int) < 0 - RATE_LIMIT_WINDOW \<and> (- 4000 :: int) < 0 - RATE_LIMIT_WINDOW
   \<and> calls [0, 100, 200, 300, 400, 500, 600, 700, 800, 900] [- 5000, - 4000]
       = (replicate 10 False, [0, 100, 200, 300, 400, 500, 600, 700, 800, 900])
   \<and> fst (handler_calls (\<lambda>l. Resolved (js ''ok'') [])
        (zip [0, 100, 200, 300, 400, 500, 600, 700, 800, 900]
          [JStr (js ''Get-VM''), JStr (js ''Get-VM''), JStr (js ''Get-VM''),
         JStr (js ''Get-VM''), JStr (js ''Get-VM''), JStr (js ''Get-VM''),
         JStr (js ''Get-VM''), JStr (js ''Get-VM''), JStr (js ''Get-VM''),
         JStr (js ''Get-VM'')])
        \<lparr>commandHistory = [- 5000, - 4000], evaluated = [], executed = []\<rparr>)
       = [\<lparr>success = True, error = None, stdout = Some (js ''ok''), stderr = Some []\<rparr>,
          \<lparr>success = True, error = None, stdout = Some (js ''ok''), stderr = Some []\<rparr>,
          \<lparr>success = True, error = None, stdout = Some (js ''ok''), stderr = Some []\<rparr>,
          \<lparr>success = True, error = None, stdout = Some (js ''ok''), stderr = Some []\<rparr>,
          \<lparr>success = True, error = None, stdout = Some (js ''ok''), stderr = Some []\<rparr>,
          \<lparr>success = True, error = None, stdout = Some (js ''ok''), stderr = Some []\<rparr>,
          \<lparr>success = True, error = None, stdout = Some (js ''ok''), stderr = Some []\<rparr>,
          \<lparr>success = True, error = None, stdout = Some (js ''ok''), stderr = Some []\<rparr>,
          \<lparr>success = True, error = None, stdout = Some (js ''ok''), stderr = Some []\<rparr>,
          \<lparr>success = True, error = None, stdout = Some (js ''ok''), stderr = Some []\<rparr>]
   \<and> fst (run_hyperv_cmd (\<lambda>l. Resolved (js ''ok'') []) 1000 (JStr (js ''Get-VM''))
        \<lparr>commandHistory = [0, 100, 200, 300, 400, 500, 600, 700, 800, 900],
          evaluated = [], executed = []\<rparr>)
       = \<lparr>success = False, error = Some (js ''Rate limit exceeded. Please slow down.''),
          stdout = None, stderr = None\<rparr>
   \<and> \<not> fst (isRateLimited 1001 [0, 100, 200, 300, 400, 500, 600, 700, 800, 900])
   \<and> fst (run_hyperv_cmd (\<lambda>l. Resolved (js ''ok'') []) 1001 (JStr (js ''Get-VM''))
        \<lparr>commandHistory = [0, 100, 200, 300, 400, 500, 600, 700, 800, 900],
          evaluated = [], executed = []\<rparr>)
       = \<lparr>success = True, error = None, stdout = Some (js ''ok''), stderr = Some []\<rparr>"
proof -
  have ok: "safe (fst (isCommandSafe (JStr (js ''Get-VM''))))"
    by (simp add: isCommandSafe_def BLOCKED_PATTERNS_def cmdletPattern_def variable_start_def
        output_cmdlet_def rx_defs)
  from rate_limiter_boundary [where ts = "[0, 100, 200, 300, 400, 500, 600, 700, 800, 900]"
      and ?h0.0 = "[- 5000, - 4000]"
      and execPromise = "\<lambda>l. Resolved (js ''ok'') []"
      and commands = "[JStr (js ''Get-VM''), JStr (js ''Get-VM''), JStr (js ''Get-VM''),
         JStr (js ''Get-VM''), JStr (js ''Get-VM''), JStr (js ''Get-VM''),
         JStr (js ''Get-VM''), JStr (js ''Get-VM''), JStr (js ''Get-VM''),
         JStr (js ''Get-VM'')]"
      and ?ev0.0 = "[]" and ?ex0.0 = "[]" and ev = "[]" and ex = "[]"] ok
  show ?thesis
    by (simp add: RATE_LIMIT_MAX_def RATE_LIMIT_WINDOW_def)
qed

section \<open>The task tracker\<close>

lemma modify_list_update:
  "i < length ts \<Longrightarrow> task_id (ts ! i) = k \<Longrightarrow> \<forall>j<i. task_id (ts ! j) \<noteq> k
    \<Longrightarrow> modify k f ts = ts[i := f (ts ! i)]"
proof (induction ts arbitrary: i)
  case Nil
  then show ?case by simp
next
  case (Cons t ts)
  show ?case
  proof (cases i)
    case 0
    then show ?thesis using Cons.prems by simp
  next
    case (Suc n)
    have "task_id t \<noteq> k" using Cons.prems(3) Suc by auto
    moreover have "modify k f ts = ts[n := f (ts ! n)]"
      using Cons.prems Suc by (intro Cons.IH) auto
    ultimately show ?thesis using Suc by simp
  qed
qed

lemma find_task_index:
  "find_task k ts = Some t \<Longrightarrow>
     \<exists>i<length ts. ts ! i = t \<and> task_id t = k \<and> (\<forall>j<i. task_id (ts ! j) \<noteq> k)"
  by (auto simp: find_task_def find_Some_iff)

text \<open>
  C7. \<open>updateTaskProgress\<close> leaves the tracker as it is when no task has the id, or when
  the task found is not running. Otherwise the task found, the first with that id, has
  its progress set to the value clamped to the range from 0 to 100; its other fields, the
  other tasks, the counter and the timers stay as they are.
\<close>

theorem updateTaskProgress_contract:
  "(find_task taskId (tasksList st) = None \<longrightarrow> updateTaskProgress taskId p st = st)
   \<and> (\<forall>t. find_task taskId (tasksList st) = Some t \<and> status t \<noteq> Running \<longrightarrow>
         updateTaskProgress taskId p st = st)
   \<and> (\<forall>t. find_task taskId (tasksList st) = Some t \<and> status t = Running \<longrightarrow>
         (\<exists>i<length (tasksList st). tasksList st ! i = t
            \<and> (\<forall>j<i. task_id (tasksList st ! j) \<noteq> taskId)
            \<and> updateTaskProgress taskId p st =
                st\<lparr>tasksList := (tasksList st)
                  [i := t\<lparr>progress := (if p < 0 then 0 else if 100 < p then 100 else p)\<rparr>]\<rparr>))"
proof (intro conjI allI impI)
  show "updateTaskProgress taskId p st = st" if "find_task taskId (tasksList st) = None"
    using that by (simp add: updateTaskProgress_def)
  show "updateTaskProgress taskId p st = st"
    if "find_task taskId (tasksList st) = Some t \<and> status t \<noteq> Running" for t
    using that by (simp add: updateTaskProgress_def)
  show "\<exists>i<length (tasksList st). tasksList st ! i = t
            \<and> (\<forall>j<i. task_id (tasksList st ! j) \<noteq> taskId)
            \<and> updateTaskProgress taskId p st =
                st\<lparr>tasksList := (tasksList st)
                  [i := t\<lparr>progress := (if p < 0 then 0 else if 100 < p then 100 else p)\<rparr>]\<rparr>"
    if h: "find_task taskId (tasksList st) = Some t \<and> status t = Running" for t
  proof -
    from h find_task_index obtain i where i: "i < length (tasksList st)" "tasksList st ! i = t"
      "task_id t = taskId" "\<forall>j<i. task_id (tasksList st ! j) \<noteq> taskId"
      by blast
    have c: "min 100 (max 0 p) = (if p < 0 then 0 else if 100 < p then 100 else p)"
      by simp
    have "modify taskId (\<lambda>t. t\<lparr>progress := min 100 (max 0 p)\<rparr>) (tasksList st)
        = (tasksList st)[i := t\<lparr>progress := min 100 (max 0 p)\<rparr>]"
      using modify_list_update [of i "tasksList st" taskId] i by simp
    then have "updateTaskProgress taskId p st =
        st\<lparr>tasksList := (tasksList st)
          [i := t\<lparr>progress := (if p < 0 then 0 else if 100 < p then 100 else p)\<rparr>]\<rparr>"
      using h c by (simp add: updateTaskProgress_def)
    with i show ?thesis by blast
  qed
qed

theorem updateTaskProgress_contract_witness:
  "find_task 1 [\<lparr>task_id = 1, name = js ''Start Virtual Machine'', target = js ''WebServer01'',
        task_type = js ''operation'', status = Running, progress = 40, startTime = 0,
        endTime = None\<rparr>]
     = Some \<lparr>task_id = 1, name = js ''Start Virtual Machine'', target = js ''WebServer01'',
        task_type = js ''operation'', status = Running, progress = 40, startTime = 0,
        endTime = None\<rparr>
   \<and> updateTaskProgress 1 150
       \<lparr>tasksList = [\<lparr>task_id = 1, name = js ''Start Virtual Machine'',
          target = js ''WebServer01'', task_type = js ''operation'', status = Running,
          progress = 40, startTime = 0, endTime = None\<rparr>], taskIdCounter = 1, timers = []\<rparr>
     = \<lparr>tasksList = [\<lparr>task_id = 1, name = js ''Start Virtual Machine'',
          target = js ''WebServer01'', task_type = js ''operation'', status = Running,
          progress = 100, startTime = 0, endTime = None\<rparr>], taskIdCounter = 1, timers = []\<rparr>"
  using updateTaskProgress_contract [of 1
      "\<lparr>tasksList = [\<lparr>task_id = 1, name = js ''Start Virtual Machine'',
          target = js ''WebServer01'', task_type = js ''operation'', status = Running,
          progress = 40, startTime = 0, endTime = None\<rparr>], taskIdCounter = 1, timers = []\<rparr>"
      150]
  by (simp add: find_task_def)

text \<open>
  C10. \<open>completeTask\<close> does not look at the status of the task it finds: whatever the
  status, the first task with the id gets the status of the flag, progress 100 and the
  current time as its end time, and a successful completion schedules a removal 30000 ms
  later. \<open>updateTaskProgress\<close> and \<open>cancelTask\<close> leave a task that is not running alone.
\<close>

theorem completeTask_overwrites_terminal:
  assumes "find_task taskId (tasksList st) = Some t"
  shows "(\<exists>i<length (tasksList st). tasksList st ! i = t
            \<and> (\<forall>j<i. task_id (tasksList st ! j) \<noteq> taskId)
            \<and> completeTask now taskId succ st =
                st\<lparr>tasksList := (tasksList st)
                     [i := t\<lparr>status := (if succ then Success else Error), progress := 100,
                             endTime := Some now\<rparr>],
                   timers := (if succ then timers st @ [(now + 30000, taskId)] else timers st)\<rparr>)
    \<and> (status t \<noteq> Running \<longrightarrow>
          updateTaskProgress taskId p st = st \<and> cancelTask now taskId st = st)"
proof -
  from assms find_task_index obtain i where i: "i < length (tasksList st)" "tasksList st ! i = t"
    "task_id t = taskId" "\<forall>j<i. task_id (tasksList st ! j) \<noteq> taskId"
    by blast
  have "modify taskId (\<lambda>t. t\<lparr>status := (if succ then Success else Error), progress := 100,
            endTime := Some now\<rparr>) (tasksList st)
      = (tasksList st)[i := t\<lparr>status := (if succ then Success else Error), progress := 100,
            endTime := Some now\<rparr>]"
    using modify_list_update [of i "tasksList st" taskId] i by simp
  then have "completeTask now taskId succ st =
      st\<lparr>tasksList := (tasksList st)
           [i := t\<lparr>status := (if succ then Success else Error), progress := 100,
                   endTime := Some now\<rparr>],
         timers := (if succ then timers st @ [(now + 30000, taskId)] else timers st)\<rparr>"
    using assms by (simp add: completeTask_def Let_def)
  with i have "\<exists>i<length (tasksList st). tasksList st ! i = t
            \<and> (\<forall>j<i. task_id (tasksList st ! j) \<noteq> taskId)
            \<and> completeTask now taskId succ st =
                st\<lparr>tasksList := (tasksList st)
                     [i := t\<lparr>status := (if succ then Success else Error), progress := 100,
                             endTime := Some now\<rparr>],
                   timers := (if succ then timers st @ [(now + 30000, taskId)] else timers st)\<rparr>"
    by blast
  moreover have "status t \<noteq> Running \<longrightarrow>
      updateTaskProgress taskId p st = st \<and> cancelTask now taskId st = st"
    using assms by (simp add: updateTaskProgress_def cancelTask_def)
  ultimately show ?thesis by blast
qed

text \<open>A cancelled task at 40 percent is completed as a success, and as an error.\<close>

theorem completeTask_overwrites_terminal_witness:
  "find_task 1 [\<lparr>task_id = 1, name = js ''Start Virtual Machine'', target = js ''WebServer01'',
        task_type = js ''operation'', status = Cancelled, progress = 40, startTime = 0,
        endTime = Some 5\<rparr>]
     = Some \<lparr>task_id = 1, name = js ''Start Virtual Machine'', target = js ''WebServer01'',
        task_type = js ''operation'', status = Cancelled, progress = 40, startTime = 0,
        endTime = Some 5\<rparr>
   \<and> completeTask 9 1 True
       \<lparr>tasksList = [\<lparr>task_id = 1, name = js ''Start Virtual Machine'',
          target = js ''WebServer01'', task_type = js ''operation'', status = Cancelled,
          progress = 40, startTime = 0, endTime = Some 5\<rparr>], taskIdCounter = 1, timers = []\<rparr>
     = \<lparr>tasksList = [\<lparr>task_id = 1, name = js ''Start Virtual Machine'',
          target = js ''WebServer01'', task_type = js ''operation'', status = Success,
          progress = 100, startTime = 0, endTime = Some 9\<rparr>], taskIdCounter = 1,
        timers = [(30009, 1)]\<rparr>
   \<and> updateTaskProgress 1 70
       \<lparr>tasksList = [\<lparr>task_id = 1, name = js ''Start Virtual Machine'',
          target = js ''WebServer01'', task_type = js ''operation'', status = Cancelled,
          progress = 40, startTime = 0, endTime = Some 5\<rparr>], taskIdCounter = 1, timers = []\<rparr>
     = \<lparr>tasksList = [\<lparr>task_id = 1, name = js ''Start Virtual Machine'',
          target = js ''WebServer01'', task_type = js ''operation'', status = Cancelled,
          progress = 40, startTime = 0, endTime = Some 5\<rparr>], taskIdCounter = 1, timers = []\<rparr>"
  using completeTask_overwrites_terminal [of 1
      "\<lparr>tasksList = [\<lparr>task_id = 1, name = js ''Start Virtual Machine'',
          target = js ''WebServer01'', task_type = js ''operation'', status = Cancelled,
          progress = 40, startTime = 0, endTime = Some 5\<rparr>], taskIdCounter = 1, timers = []\<rparr>"
      "\<lparr>task_id = 1, name = js ''Start Virtual Machine'', target = js ''WebServer01'',
        task_type = js ''operation'', status = Cancelled, progress = 40, startTime = 0,
        endTime = Some 5\<rparr>" 9 True 70]
  by (simp add: find_task_def)

section \<open>Invariants of the task tracker\<close>

lemma find_task_modify:
  "(\<And>t. task_id (f t) = task_id t) \<Longrightarrow>
     find_task k (modify j f ts) = (if j = k then map_option f (find_task k ts) else find_task k ts)"
  by (induction ts) (auto simp: find_task_def)

lemma map_task_id_modify:
  "(\<And>t. task_id (f t) = task_id t) \<Longrightarrow> map task_id (modify j f ts) = map task_id ts"
  by (induction ts) auto

lemma set_modify:
  "t \<in> set (modify j f ts) \<Longrightarrow> t \<in> set ts \<or> (\<exists>u. find_task j ts = Some u \<and> t = f u)"
  by (induction ts) (auto simp: find_task_def split: if_splits)

lemma find_task_in_set: "find_task k ts = Some t \<Longrightarrow> t \<in> set ts \<and> task_id t = k"
  by (induction ts) (auto simp: find_task_def split: if_splits)

lemma find_task_None: "find_task k ts = None \<longleftrightarrow> k \<notin> task_id ` set ts"
  by (induction ts) (auto simp: find_task_def)

lemma auto_remove_filter:
  "distinct (map task_id ts) \<Longrightarrow>
     auto_remove j ts = filter (\<lambda>t. \<not> (task_id t = j \<and> status t = Success)) ts"
proof (induction ts)
  case Nil
  then show ?case by simp
next
  case (Cons t ts)
  show ?case
  proof (cases "task_id t = j")
    case True
    then have "\<forall>u\<in>set ts. task_id u \<noteq> j" using Cons.prems by (auto simp: image_iff)
    then have "filter (\<lambda>t. \<not> (task_id t = j \<and> status t = Success)) ts = ts"
      by (simp add: filter_id_conv)
    then show ?thesis using True by simp
  next
    case False
    then show ?thesis using Cons by simp
  qed
qed

lemma fold_auto_remove:
  "distinct (map task_id ts) \<Longrightarrow>
     fold (\<lambda>timer ts. auto_remove (snd timer) ts) L ts
       = filter (\<lambda>t. \<not> (status t = Success \<and> task_id t \<in> snd ` set L)) ts"
proof (induction L arbitrary: ts)
  case Nil
  then show ?case by simp
next
  case (Cons x L)
  have d: "distinct (map task_id (filter (\<lambda>t. \<not> (task_id t = snd x \<and> status t = Success)) ts))"
    using Cons.prems by (rule distinct_map_filter)
  show ?case
    using Cons.prems Cons.IH [OF d]
    by (auto simp: auto_remove_filter intro!: filter_cong)
qed

lemma tasksList_run_timers:
  "distinct (map task_id (tasksList st)) \<Longrightarrow>
     tasksList (run_timers now st)
       = filter (\<lambda>t. \<not> (status t = Success
                         \<and> (\<exists>d. d \<le> now \<and> (d, task_id t) \<in> set (timers st))))
           (tasksList st)"
  by (force simp: run_timers_def fold_auto_remove intro!: filter_cong)

lemma find_task_filter:
  "distinct (map task_id ts) \<Longrightarrow>
     find_task k (filter P ts)
       = (case find_task k ts of None \<Rightarrow> None | Some t \<Rightarrow> if P t then Some t else None)"
proof (induction ts)
  case Nil
  then show ?case by (simp add: find_task_def)
next
  case (Cons t ts)
  show ?case
  proof (cases "task_id t = k")
    case True
    then have "k \<notin> task_id ` set ts" using Cons.prems by auto
    then have "find_task k (filter P ts) = None"
      by (auto simp: find_task_None)
    then show ?thesis using True by (simp add: find_task_def)
  next
    case False
    then show ?thesis using Cons by (simp add: find_task_def)
  qed
qed

lemma tracker_inv_create: "tracker_inv st \<Longrightarrow> tracker_inv (snd (createTask now nm tg ty st))"
  by (fastforce simp: tracker_inv_def createTask_def Let_def)

lemma tracker_inv_modify:
  assumes "tracker_inv st" and "\<And>t. task_id (f t) = task_id t"
    and "\<And>u. find_task k (tasksList st) = Some u \<Longrightarrow>
           0 \<le> progress (f u) \<and> progress (f u) \<le> 100
           \<and> (status (f u) = Success \<or> status (f u) = Error \<longrightarrow> progress (f u) = 100)"
  shows "tracker_inv (st\<lparr>tasksList := modify k f (tasksList st)\<rparr>)"
proof -
  have "task_id t \<le> taskIdCounter st \<and> 0 \<le> progress t \<and> progress t \<le> 100
      \<and> (status t = Success \<or> status t = Error \<longrightarrow> progress t = 100)"
    if "t \<in> set (modify k f (tasksList st))" for t
  proof -
    from set_modify [OF that] show ?thesis
    proof
      assume "t \<in> set (tasksList st)"
      then show ?thesis using assms(1) by (simp add: tracker_inv_def)
    next
      assume "\<exists>u. find_task k (tasksList st) = Some u \<and> t = f u"
      then obtain u where u: "find_task k (tasksList st) = Some u" "t = f u" by blast
      then have "u \<in> set (tasksList st)" using find_task_in_set by blast
      then have "task_id u \<le> taskIdCounter st" using assms(1) by (simp add: tracker_inv_def)
      then show ?thesis using u assms(2) assms(3) [OF u(1)] by simp
    qed
  qed
  then show ?thesis
    using assms(1) by (simp add: tracker_inv_def map_task_id_modify [OF assms(2)])
qed

lemma tracker_inv_update: "tracker_inv st \<Longrightarrow> tracker_inv (updateTaskProgress k p st)"
  unfolding updateTaskProgress_def
  by (auto split: option.splits intro!: tracker_inv_modify)

lemma tracker_inv_timers: "tracker_inv st \<Longrightarrow> tracker_inv (st\<lparr>timers := x\<rparr>)"
  by (simp add: tracker_inv_def)

lemma tracker_inv_complete: "tracker_inv st \<Longrightarrow> tracker_inv (completeTask now k b st)"
  unfolding completeTask_def Let_def
  by (auto split: option.splits intro!: tracker_inv_modify tracker_inv_timers)

lemma tracker_inv_cancel:
  assumes "tracker_inv st"
  shows "tracker_inv (cancelTask now k st)"
proof (cases "find_task k (tasksList st)")
  case None
  then show ?thesis using assms by (simp add: cancelTask_def)
next
  case (Some u)
  then have "u \<in> set (tasksList st)" using find_task_in_set by blast
  then have r: "0 \<le> progress u \<and> progress u \<le> 100"
    using assms by (simp add: tracker_inv_def)
  have "tracker_inv (st\<lparr>tasksList :=
      modify k (\<lambda>t. t\<lparr>status := Cancelled, endTime := Some now\<rparr>) (tasksList st)\<rparr>)"
    using assms r Some by (intro tracker_inv_modify) auto
  then show ?thesis using assms Some by (simp add: cancelTask_def)
qed

lemma tracker_inv_clear: "tracker_inv st \<Longrightarrow> tracker_inv (clearCompletedTasks st)"
  by (simp add: tracker_inv_def clearCompletedTasks_def distinct_map_filter)

lemma tracker_inv_run_timers: "tracker_inv st \<Longrightarrow> tracker_inv (run_timers now st)"
proof -
  assume inv: "tracker_inv st"
  then have d: "distinct (map task_id (tasksList st))" by (simp add: tracker_inv_def)
  have c: "taskIdCounter (run_timers now st) = taskIdCounter st"
    by (simp add: run_timers_def)
  show ?thesis
    using inv unfolding tracker_inv_def tasksList_run_timers [OF d] c
    by (simp add: distinct_map_filter)
qed

lemma tracker_inv_step: "tracker_inv st \<Longrightarrow> tracker_inv (step op st)"
proof (cases op)
  case (Pair now o')
  assume "tracker_inv st"
  then show ?thesis
    unfolding Pair
    by (cases o')
      (simp_all add: tracker_inv_create tracker_inv_update tracker_inv_complete
        tracker_inv_cancel tracker_inv_clear tracker_inv_run_timers)
qed

lemma tracker_inv_run: "tracker_inv st \<Longrightarrow> tracker_inv (run ops st)"
  unfolding run_def by (induction ops arbitrary: st) (simp_all add: tracker_inv_step)

lemma tracker_inv_no_tasks: "tracker_inv no_tasks"
  by (simp add: tracker_inv_def no_tasks_def)

subsection \<open>What each operation does to the task with a given id\<close>

lemma find_task_create:
  "find_task k (tasksList (snd (createTask now nm tg ty st)))
     = (if k = taskIdCounter st + 1
        then Some \<lparr>task_id = k, name = nm, target = tg, task_type = ty, status = Running,
                   progress = 0, startTime = now, endTime = None\<rparr>
        else find_task k (tasksList st))"
  by (auto simp: createTask_def Let_def find_task_def)

lemma find_task_update:
  "find_task k (tasksList (updateTaskProgress j p st))
     = (if j = k
        then map_option (\<lambda>t. if status t = Running then t\<lparr>progress := min 100 (max 0 p)\<rparr> else t)
               (find_task k (tasksList st))
        else find_task k (tasksList st))"
  by (auto simp: updateTaskProgress_def find_task_modify split: option.splits)

lemma find_task_cancel:
  "find_task k (tasksList (cancelTask now j st))
     = (if j = k
        then map_option
               (\<lambda>t. if status t = Running then t\<lparr>status := Cancelled, endTime := Some now\<rparr> else t)
               (find_task k (tasksList st))
        else find_task k (tasksList st))"
  by (auto simp: cancelTask_def find_task_modify split: option.splits)

lemma find_task_complete:
  "find_task k (tasksList (completeTask now j b st))
     = (if j = k
        then map_option
               (\<lambda>t. t\<lparr>status := (if b then Success else Error), progress := 100,
                      endTime := Some now\<rparr>)
               (find_task k (tasksList st))
        else find_task k (tasksList st))"
  by (auto simp: completeTask_def Let_def find_task_modify split: option.splits)

lemma find_task_clear:
  "distinct (map task_id (tasksList st)) \<Longrightarrow>
   find_task k (tasksList (clearCompletedTasks st))
     = (case find_task k (tasksList st) of
          None \<Rightarrow> None
        | Some t \<Rightarrow> if status t = Running then Some t else None)"
  by (simp add: clearCompletedTasks_def find_task_filter)

lemma find_task_run_timers:
  assumes "distinct (map task_id (tasksList st))"
  shows "find_task k (tasksList (run_timers now st))
     = (case find_task k (tasksList st) of
          None \<Rightarrow> None
        | Some t \<Rightarrow>
            if status t = Success \<and> (\<exists>d. d \<le> now \<and> (d, k) \<in> set (timers st)) then None
            else Some t)"
proof (cases "find_task k (tasksList st)")
  case None
  then show ?thesis
    by (simp add: tasksList_run_timers [OF assms] find_task_filter [OF assms])
next
  case (Some t)
  then have "task_id t = k" using find_task_in_set by blast
  then show ?thesis
    using Some by (simp add: tasksList_run_timers [OF assms] find_task_filter [OF assms])
qed

lemma timers_complete:
  "timers (completeTask now j b st)
     = (if b \<and> find_task j (tasksList st) \<noteq> None then timers st @ [(now + 30000, j)]
        else timers st)"
  by (auto simp: completeTask_def Let_def split: option.splits)

lemma timers_update: "timers (updateTaskProgress j p st) = timers st"
  by (simp add: updateTaskProgress_def split: option.splits)

lemma timers_cancel: "timers (cancelTask now j st) = timers st"
  by (simp add: cancelTask_def split: option.splits)

lemma counter_update: "taskIdCounter (updateTaskProgress j p st) = taskIdCounter st"
  by (simp add: updateTaskProgress_def split: option.splits)

lemma counter_cancel: "taskIdCounter (cancelTask now j st) = taskIdCounter st"
  by (simp add: cancelTask_def split: option.splits)

lemma counter_complete: "taskIdCounter (completeTask now j b st) = taskIdCounter st"
  by (simp add: completeTask_def Let_def split: option.splits)


lemma removal_pending_step:
  assumes inv: "tracker_inv st"
    and p: "removal_pending k due st"
    and op: "snd op \<noteq> Complete k False"
  shows "removal_pending k due (step op st)"
proof -
  have d: "distinct (map task_id (tasksList st))" using inv by (simp add: tracker_inv_def)
  obtain now o' where o: "op = (now, o')" by (cases op)
  show ?thesis
  proof (cases o')
    case (Create nm tg ty)
    then show ?thesis
      using o p by (auto simp: removal_pending_def find_task_create) (simp_all add: createTask_def Let_def)
  next
    case (Update j p')
    have "find_task k (tasksList (updateTaskProgress j p' st)) = find_task k (tasksList st)"
      using p by (cases "find_task k (tasksList st)") (auto simp: removal_pending_def find_task_update)
    then show ?thesis
      using o p Update by (simp add: removal_pending_def timers_update counter_update)
  next
    case (Complete j b)
    then have "j = k \<longrightarrow> b" using op o by auto
    then show ?thesis
      using o p Complete
      by (auto simp: removal_pending_def find_task_complete timers_complete counter_complete)
  next
    case (Cancel j)
    have "find_task k (tasksList (cancelTask now j st)) = find_task k (tasksList st)"
      using p by (cases "find_task k (tasksList st)") (auto simp: removal_pending_def find_task_cancel)
    then show ?thesis
      using o p Cancel by (simp add: removal_pending_def timers_cancel counter_cancel)
  next
    case Clear
    then show ?thesis
      using o p by (auto simp: removal_pending_def find_task_clear [OF d]) (simp_all add: clearCompletedTasks_def)
  next
    case Elapse
    then show ?thesis
      using o p
      by (auto simp: removal_pending_def find_task_run_timers [OF d] split: if_splits)
        (auto simp add: run_timers_def)
  qed
qed

lemma removal_pending_run:
  "tracker_inv st \<Longrightarrow> removal_pending k due st \<Longrightarrow> \<forall>op\<in>set ops. snd op \<noteq> Complete k False
    \<Longrightarrow> tracker_inv (run ops st) \<and> removal_pending k due (run ops st)"
  unfolding run_def
  by (induction ops arbitrary: st) (simp_all add: tracker_inv_step removal_pending_step)

lemma removal_pending_fires:
  assumes "tracker_inv st" and "removal_pending k due st" and "due \<le> later"
  shows "find_task k (tasksList (run_timers later st)) = None"
proof -
  have d: "distinct (map task_id (tasksList st))" using assms(1) by (simp add: tracker_inv_def)
  show ?thesis
    using assms(2,3) by (auto simp: removal_pending_def find_task_run_timers [OF d])
qed

section \<open>Progress of a task over its life\<close>




section \<open>Completion and automatic removal\<close>

text \<open>
  C9, as the claim states it, fails: a task completed as a success at 10 ms and completed
  again as an error at 20 ms is still in the list when the timers due at 30010 ms have
  run, because the callback only removes a task whose status is then still success.
\<close>

theorem auto_removal_counterexample:
  "map task_id (tasksList (run
      [(0, Create (js ''Start Virtual Machine'') (js ''WebServer01'') (js ''operation'')),
       (10, Complete 1 True), (20, Complete 1 False), (30010, Elapse)] no_tasks)) = [1]
   \<and> map status (tasksList (run
      [(0, Create (js ''Start Virtual Machine'') (js ''WebServer01'') (js ''operation'')),
       (10, Complete 1 True), (20, Complete 1 False), (30010, Elapse)] no_tasks)) = [Error]"
  by (simp add: run_def no_tasks_def createTask_def completeTask_def run_timers_def
      find_task_def)

text \<open>
  C9, amended. \<open>completeTask\<close> does nothing when no task has the id. On an existing task,
  a successful completion sets the status to success, the progress to 100 and the end
  time to the current time, and schedules a callback due 30000 ms later. In a state
  reached from the empty tracker, whatever operations follow the completion, as long as
  none of them completes the same task as an error, the task is absent from the list once
  the timers due 30000 ms after the completion, or later, have run.
\<close>

theorem complete_and_auto_removal:
  "(find_task k (tasksList st) = None \<longrightarrow> completeTask now k succ st = st)
   \<and> (\<forall>t. find_task k (tasksList st) = Some t \<longrightarrow>
         find_task k (tasksList (completeTask now k True st))
           = Some (t\<lparr>status := Success, progress := 100, endTime := Some now\<rparr>)
         \<and> timers (completeTask now k True st) = timers st @ [(now + 30000, k)])
   \<and> (find_task k (tasksList (run before no_tasks)) \<noteq> None
        \<and> (\<forall>op\<in>set ops. snd op \<noteq> Complete k False) \<and> now + 30000 \<le> later \<longrightarrow>
       find_task k (tasksList (run_timers later
          (run ops (completeTask now k True (run before no_tasks))))) = None)"
proof -
  have noop: "find_task k (tasksList st) = None \<longrightarrow> completeTask now k succ st = st"
    by (simp add: completeTask_def)
  have sets: "\<forall>t. find_task k (tasksList st) = Some t \<longrightarrow>
         find_task k (tasksList (completeTask now k True st))
           = Some (t\<lparr>status := Success, progress := 100, endTime := Some now\<rparr>)
         \<and> timers (completeTask now k True st) = timers st @ [(now + 30000, k)]"
    by (simp add: find_task_complete timers_complete)
  have gone: "find_task k (tasksList (run_timers later
          (run ops (completeTask now k True (run before no_tasks))))) = None"
    if ex: "find_task k (tasksList (run before no_tasks)) \<noteq> None"
      and ops: "\<forall>op\<in>set ops. snd op \<noteq> Complete k False" and later: "now + 30000 \<le> later"
  proof -
    let ?st = "run before no_tasks"
    have inv: "tracker_inv ?st"
      by (rule tracker_inv_run) (rule tracker_inv_no_tasks)
    from ex obtain t where t: "find_task k (tasksList ?st) = Some t" by blast
    then have "t \<in> set (tasksList ?st)" "task_id t = k" using find_task_in_set by blast+
    then have k: "k \<le> taskIdCounter ?st" using inv by (auto simp: tracker_inv_def)
    have inv1: "tracker_inv (completeTask now k True ?st)"
      using inv by (rule tracker_inv_complete)
    have "removal_pending k (now + 30000) (completeTask now k True ?st)"
      using t k by (simp add: removal_pending_def find_task_complete timers_complete
          counter_complete)
    with inv1 ops have "tracker_inv (run ops (completeTask now k True ?st))
        \<and> removal_pending k (now + 30000) (run ops (completeTask now k True ?st))"
      by (intro removal_pending_run)
    then show ?thesis using later removal_pending_fires by blast
  qed
  from gone have gone': "find_task k (tasksList (run before no_tasks)) \<noteq> None
        \<and> (\<forall>op\<in>set ops. snd op \<noteq> Complete k False) \<and> now + 30000 \<le> later \<longrightarrow>
       find_task k (tasksList (run_timers later
          (run ops (completeTask now k True (run before no_tasks))))) = None"
    by simp
  show ?thesis
    by (rule conjI [OF noop conjI [OF sets gone']])
qed

text \<open>
  The scenario of the specification: the task is created and completed as a success at
  10 ms; the list is empty after the timers due at 30010 ms have run.
\<close>

theorem complete_and_auto_removal_witness:
  "find_task 1 (tasksList (run
      [(0, Create (js ''Start Virtual Machine'') (js ''WebServer01'') (js ''operation''))]
      no_tasks)) \<noteq> None
   \<and> tasksList (completeTask 10 1 True (run
      [(0, Create (js ''Start Virtual Machine'') (js ''WebServer01'') (js ''operation''))]
      no_tasks))
     = [\<lparr>task_id = 1, name = js ''Start Virtual Machine'', target = js ''WebServer01'',
        task_type = js ''operation'', status = Success, progress = 100, startTime = 0,
        endTime = Some 10\<rparr>]
   \<and> find_task 1 (tasksList (run_timers 30010 (run [(20, Update 1 5)] (completeTask 10 1 True
      (run [(0, Create (js ''Start Virtual Machine'') (js ''WebServer01'') (js ''operation''))]
        no_tasks))))) = None"
  using complete_and_auto_removal [of 1
      "run [(0, Create (js ''Start Virtual Machine'') (js ''WebServer01'') (js ''operation''))]
        no_tasks" 10 True
      "[(0, Create (js ''Start Virtual Machine'') (js ''WebServer01'') (js ''operation''))]"
      "[(20, Update 1 5)]" 30010]
  by (simp add: run_def no_tasks_def createTask_def completeTask_def find_task_def)

section \<open>The matcher and the removal of matches\<close>

text \<open>
  With the \<open>i\<close> flag a range contains a code unit exactly when it contains a unit with
  the same canonical form.
\<close>

lemma canonicalize_swapcase: "canonicalize (swapcase c) = canonicalize c"
  unfolding canonicalize_def swapcase_def by (simp split: if_splits) arith

lemma canonicalize_eq: "canonicalize a = canonicalize c \<Longrightarrow> a = c \<or> a = swapcase c"
  unfolding canonicalize_def swapcase_def by (simp split: if_splits) arith+

lemma in_range_fold:
  "in_atom True c (Rng lo hi) \<longleftrightarrow> (\<exists>a. lo \<le> a \<and> a \<le> hi \<and> canonicalize a = canonicalize c)"
proof
  assume "in_atom True c (Rng lo hi)"
  then have "lo \<le> c \<and> c \<le> hi \<or> lo \<le> swapcase c \<and> swapcase c \<le> hi" by simp
  then show "\<exists>a. lo \<le> a \<and> a \<le> hi \<and> canonicalize a = canonicalize c"
    using canonicalize_swapcase by blast
next
  assume "\<exists>a. lo \<le> a \<and> a \<le> hi \<and> canonicalize a = canonicalize c"
  then obtain a where a: "lo \<le> a" "a \<le> hi" "canonicalize a = canonicalize c" by blast
  from canonicalize_eq [OF a(3)] a(1,2) show "in_atom True c (Rng lo hi)" by auto
qed

text \<open>A match never ends before it starts, and a round of a repetition moves on.\<close>

lemma unit_step_shorter: "y \<in> set (unit_step P x) \<Longrightarrow> length (snd y) < length (snd x)"
  by (cases "(P, x)" rule: unit_step.cases) (auto split: if_splits)

lemma m_le: "y \<in> set (m ic r x) \<Longrightarrow> length (snd y) \<le> length (snd x)"
proof (induction ic r x arbitrary: y rule: m.induct)
  case (5 ic a b x)
  from "5.prems" obtain z where z: "z \<in> set (m ic a x)" "y \<in> set (m ic b z)" by auto
  have "length (snd y) \<le> length (snd z)" using "5.IH"(2) z by blast
  moreover have "length (snd z) \<le> length (snd x)" using "5.IH"(1) z(1) by blast
  ultimately show ?case by simp
next
  case (7 ic a x)
  have "m ic (Star a) x = concat (map (\<lambda>z. m ic (Star a) z)
       (filter (\<lambda>z. length (snd z) < length (snd x)) (m ic a x))) @ [x]"
    by (rule m.simps(7))
  with "7.prems" have "y \<in> set (concat (map (\<lambda>z. m ic (Star a) z)
       (filter (\<lambda>z. length (snd z) < length (snd x)) (m ic a x))) @ [x])"
    by (simp del: m.simps)
  then have "y = x \<or> (\<exists>z\<in>set (m ic a x).
      length (snd z) < length (snd x) \<and> y \<in> set (m ic (Star a) z))"
    by (auto simp del: m.simps)
  then show ?case
  proof
    assume "y = x"
    then show ?thesis by simp
  next
    assume "\<exists>z\<in>set (m ic a x). length (snd z) < length (snd x) \<and> y \<in> set (m ic (Star a) z)"
    then obtain z where z: "z \<in> set (m ic a x)" "length (snd z) < length (snd x)"
      "y \<in> set (m ic (Star a) z)" by blast
    then have "length (snd y) \<le> length (snd z)" using "7.IH"(2) by (simp del: m.simps)
    then show ?thesis using z(2) by simp
  qed
next
  case (1 ic x)
  then show ?case by (auto dest: unit_step_shorter)
next
  case (2 ic as x)
  then show ?case by (auto dest: unit_step_shorter)
next
  case (3 ic as x)
  then show ?case by (auto dest: unit_step_shorter)
next
  case (4 ic x)
  then show ?case by simp
next
  case (6 ic a b x)
  have "y \<in> set (m ic a x) \<or> y \<in> set (m ic b x)" using "6.prems" by simp
  then show ?case using "6.IH" by blast
next
  case (8 ic a x)
  have "y = x \<or> length (snd y) < length (snd x)" using "8.prems" by auto
  then show ?case by auto
next
  case (9 ic a x)
  then show ?case by (simp split: if_splits)
next
  case (10 ic x)
  then show ?case by (simp split: if_splits)
next
  case (11 ic x)
  then show ?case by (simp split: if_splits)
qed

lemma m_consumes:
  "consumes r \<Longrightarrow> y \<in> set (m ic r x) \<Longrightarrow> length (snd y) < length (snd x)"
proof (induction r arbitrary: x y)
  case (Conc a b)
  from Conc.prems(2) obtain z where z: "z \<in> set (m ic a x)" "y \<in> set (m ic b z)" by auto
  show ?case
  proof (cases "consumes a")
    case True
    then have "length (snd z) < length (snd x)" using Conc.IH(1) z(1) by blast
    moreover have "length (snd y) \<le> length (snd z)" using z(2) by (rule m_le)
    ultimately show ?thesis by simp
  next
    case False
    then have "consumes b" using Conc.prems(1) by simp
    then have "length (snd y) < length (snd z)" using Conc.IH(2) z(2) by blast
    moreover have "length (snd z) \<le> length (snd x)" using z(1) by (rule m_le)
    ultimately show ?thesis by simp
  qed
next
  case (Alt a b)
  have "y \<in> set (m ic a x) \<or> y \<in> set (m ic b x)" using Alt.prems(2) by simp
  moreover have "consumes a" "consumes b" using Alt.prems(1) by simp_all
  ultimately show ?case using Alt.IH by blast
next
  case Dot
  then show ?case by (auto dest: unit_step_shorter)
next
  case (Set as)
  then show ?case by (auto dest: unit_step_shorter)
next
  case (NSet as)
  then show ?case by (auto dest: unit_step_shorter)
qed (simp_all del: m.simps)

lemma remove_all_cases:
  obtains (skip) "m (fst re) (snd re) (p, s) = []
        \<or> (\<exists>p' s' r. m (fst re) (snd re) (p, s) = (p', s') # r \<and> \<not> length s' < length s)"
      "remove_all re p s = (case s of [] \<Rightarrow> [] | c # cs \<Rightarrow> c # remove_all re (Some c) cs)"
  | (cut) p' s' r where "m (fst re) (snd re) (p, s) = (p', s') # r" "length s' < length s"
      "remove_all re p s = remove_all re p' s'"
proof (cases "m (fst re) (snd re) (p, s)")
  case Nil
  then have "remove_all re p s = (case s of [] \<Rightarrow> [] | c # cs \<Rightarrow> c # remove_all re (Some c) cs)"
    by (subst remove_all.simps) (simp del: remove_all.simps)
  with Nil show ?thesis using skip by blast
next
  case (Cons x r)
  obtain p' s' where x: "x = (p', s')" by (cases x)
  show ?thesis
  proof (cases "length s' < length s")
    case True
    then have "remove_all re p s = remove_all re p' s'"
      using Cons x by (subst remove_all.simps) (simp del: remove_all.simps)
    then show ?thesis using cut Cons x True by blast
  next
    case False
    then have "remove_all re p s
        = (case s of [] \<Rightarrow> [] | c # cs \<Rightarrow> c # remove_all re (Some c) cs)"
      using Cons x by (subst remove_all.simps) (simp del: remove_all.simps)
    then show ?thesis using skip Cons x False by blast
  qed
qed

lemma remove_all_length: "length (remove_all re p s) \<le> length s"
proof (induction "length s" arbitrary: p s rule: less_induct)
  case less
  show ?case
  proof (cases rule: remove_all_cases [of re p s])
    case skip
    show ?thesis
    proof (cases s)
      case Nil
      then show ?thesis using skip(2) by (simp del: remove_all.simps)
    next
      case (Cons c cs)
      then have "length (remove_all re (Some c) cs) \<le> length cs"
        using less [of cs "Some c"] by simp
      then show ?thesis using skip(2) Cons by (simp del: remove_all.simps)
    qed
  next
    case (cut p' s' r)
    then have "length (remove_all re p' s') \<le> length s'"
      using less [of s' p'] by simp
    then show ?thesis using cut by (simp del: remove_all.simps)
  qed
qed

lemma remove_all_no_match: "\<not> search re p s \<Longrightarrow> remove_all re p s = s"
proof (induction s arbitrary: p)
  case Nil
  then have "m (fst re) (snd re) (p, []) = []" by simp
  then show ?case by (subst remove_all.simps) (simp del: remove_all.simps)
next
  case (Cons c cs)
  then have "m (fst re) (snd re) (p, c # cs) = []" and "\<not> search re (Some c) cs"
    by simp_all
  then show ?case
    using Cons.IH [of "Some c"] by (subst remove_all.simps) (simp del: remove_all.simps)
qed

lemma remove_all_shorter:
  "consumes (snd re) \<Longrightarrow> search re p s \<Longrightarrow> length (remove_all re p s) < length s"
proof (induction "length s" arbitrary: p s rule: less_induct)
  case less
  show ?case
  proof (cases rule: remove_all_cases [of re p s])
    case skip
    have "m (fst re) (snd re) (p, s) = []"
    proof (rule ccontr)
      assume "m (fst re) (snd re) (p, s) \<noteq> []"
      with skip(1) obtain p' s' r where r: "m (fst re) (snd re) (p, s) = (p', s') # r"
        "\<not> length s' < length s" by blast
      then have "(p', s') \<in> set (m (fst re) (snd re) (p, s))" by simp
      from m_consumes [OF less.prems(1) this] r(2) show False by simp
    qed
    show ?thesis
    proof (cases s)
      case Nil
      then show ?thesis using less.prems(2) \<open>m (fst re) (snd re) (p, s) = []\<close> by simp
    next
      case (Cons c cs)
      then have "search re (Some c) cs"
        using less.prems(2) \<open>m (fst re) (snd re) (p, s) = []\<close> by simp
      then have "length (remove_all re (Some c) cs) < length cs"
        using less.hyps [of cs "Some c"] less.prems(1) Cons by simp
      then show ?thesis using skip(2) Cons by (simp del: remove_all.simps)
    qed
  next
    case (cut p' s' r)
    have "length (remove_all re p' s') \<le> length s'" by (rule remove_all_length)
    then show ?thesis using cut by (simp del: remove_all.simps)
  qed
qed

lemma remove_all_fixed:
  "consumes (snd re) \<Longrightarrow> remove_all re p s = s \<longleftrightarrow> \<not> search re p s"
  using remove_all_no_match [of re p s] remove_all_shorter [of re p s] by fastforce

lemma consumes_patterns:
  "consumes (snd script_block)" "consumes (snd javascript_uri)" "consumes (snd event_handler)"
  by (simp_all add: script_block_def javascript_uri_def event_handler_def str_def js_def many1_def)

lemma sanitize_string_fixed: "sanitize_string s = s \<longleftrightarrow> blocked_free s"
proof
  assume "blocked_free s"
  then show "sanitize_string s = s"
    by (simp add: blocked_free_def test_def sanitize_string_def remove_all_no_match
        del: remove_all.simps)
next
  assume fp: "sanitize_string s = s"
  let ?s1 = "remove_all script_block None s"
  let ?s2 = "remove_all javascript_uri None ?s1"
  let ?s3 = "remove_all event_handler None ?s2"
  have l1: "length ?s1 \<le> length s" by (rule remove_all_length)
  have l2: "length ?s2 \<le> length ?s1" by (rule remove_all_length)
  have l3: "length ?s3 \<le> length ?s2" by (rule remove_all_length)
  have "?s3 = s" using fp by (simp add: sanitize_string_def del: remove_all.simps)
  then have e: "length ?s3 = length s" by (simp del: remove_all.simps)
  have n1: "\<not> search script_block None s"
  proof
    assume "search script_block None s"
    then have "length ?s1 < length s"
      by (rule remove_all_shorter [OF consumes_patterns(1)])
    then show False using l2 l3 e by linarith
  qed
  then have s1: "?s1 = s" by (rule remove_all_no_match)
  have n2: "\<not> search javascript_uri None s"
  proof
    assume "search javascript_uri None s"
    then have "length (remove_all javascript_uri None s) < length s"
      by (rule remove_all_shorter [OF consumes_patterns(2)])
    then show False using l3 e s1 by (simp del: remove_all.simps)
  qed
  then have s2: "remove_all javascript_uri None s = s" by (rule remove_all_no_match)
  have n3: "\<not> search event_handler None s"
  proof
    assume "search event_handler None s"
    then have "length (remove_all event_handler None s) < length s"
      by (rule remove_all_shorter [OF consumes_patterns(3)])
    then show False using e s1 s2 by (simp del: remove_all.simps)
  qed
  from n1 n2 n3 show "blocked_free s" by (simp add: blocked_free_def test_def)
qed

section \<open>What the sanitizer leaves behind\<close>

text \<open>
  The three samples of the specification, separated by spaces, are sanitized to a string
  in which none of the three expressions matches.
\<close>

lemma sanitize_sample:
  "sanitizeInput
     (JStr (js ''<script>alert(1)</script> javascript:alert(1) onclick=alert(1)''))
     = JStr (js '' alert(1) alert(1)'')
   \<and> blocked_free (js '' alert(1) alert(1)'')"
  by (simp add: sanitize_string_def blocked_free_def script_block_def javascript_uri_def
      event_handler_def rx_defs)

text \<open>
  An own property with the key \<open>__proto__\<close> does not reach the sanitized object: a string
  value is ignored, an object value becomes the prototype.
\<close>

lemma sanitize_proto_key:
  "sanitizeInput (JObj None [(js ''__proto__'', JStr (js ''x'')), (js ''a'', JStr (js ''b''))])
     = JObj None [(js ''a'', JStr (js ''b''))]
   \<and> sanitizeInput (JObj None [(js ''__proto__'', JObj None [(js ''c'', JStr (js ''d''))]),
        (js ''a'', JStr (js ''b''))])
     = JObj (Some (JObj None [(js ''c'', JStr (js ''d''))])) [(js ''a'', JStr (js ''b''))]"
  by (simp add: set_property_def sanitize_string_def script_block_def javascript_uri_def
      event_handler_def rx_defs)

text \<open>
  C3. The output of the sanitizer is to contain no occurrence of the three patterns. The
  code misses this for \<open>javajavascript:script:\<close>: the pass for \<open>javascript:\<close> drops the
  occurrence in the middle, the text on its two sides closes up to \<open>javascript:\<close>, and no
  pass looks at that text again. The output is \<open>javascript:\<close>, which the expression of
  the second pass matches.
\<close>

theorem sanitize_leaves_javascript_uri:
  "sanitizeInput (JStr (js ''javajavascript:script:'')) = JStr (js ''javascript:'')
   \<and> test javascript_uri (js ''javascript:'')"
  by (simp add: sanitize_string_def script_block_def javascript_uri_def event_handler_def
      rx_defs)

section \<open>Sanitizing twice\<close>

text \<open>
  C4. Sanitizing a second time is to change nothing. The code misses this, by the same
  defect: the first application removes the inner, complete script block of
  \<open><scr<script></script>ipt>x</script>\<close> and leaves the complete block
  \<open><script>x</script>\<close> behind, which the second application removes.
\<close>

theorem sanitize_twice_differs:
  "sanitizeInput (JArr [JStr (js ''<scr<script></script>ipt>x</script>'')])
     = JArr [JStr (js ''<script>x</script>'')]
   \<and> sanitizeInput (sanitizeInput (JArr [JStr (js ''<scr<script></script>ipt>x</script>'')]))
     = JArr [JStr []]
   \<and> sanitizeInput (sanitizeInput (JArr [JStr (js ''<scr<script></script>ipt>x</script>'')]))
     \<noteq> sanitizeInput (JArr [JStr (js ''<scr<script></script>ipt>x</script>'')])"
  by (simp add: sanitize_string_def script_block_def javascript_uri_def event_handler_def
      rx_defs)

end
